theory Spec2Isabelle
  imports Complex_Main "HOL-Library.Multiset" "HOL-Library.Log_Nat"
begin

section \<open>QuizPro: the quiz session of \<^verbatim>\<open>src/script.js\<close>\<close>

text \<open>
  The development embeds the classes \<^verbatim>\<open>QuizState\<close>, \<^verbatim>\<open>Utils\<close> (the shuffle) and
  \<^verbatim>\<open>QuizApp\<close> of \<^verbatim>\<open>script.js\<close>. The object \<^verbatim>\<open>this.state\<close> is a record; what the
  methods read from or leave in the browser (the live interval timers, the scheduled
  auto-advance callbacks, the answer elements of the page and the one carrying the class
  \<^verbatim>\<open>selected\<close>, the visible screen, the error dialog, local storage, the values of
  \<^verbatim>\<open>Math.random\<close> and \<^verbatim>\<open>Date.now\<close>) is a second record around it. Every method is a
  function from that record to the record it leaves. Calls that only paint (toasts, the
  progress bar, the score display, focus, CSS classes other than \<^verbatim>\<open>selected\<close>) are
  left out: nothing reads them back. The page is taken to hold every element the script
  looks up by id or selector. An answer element is built from markup, and its text is
  what the browser's parser makes of that markup.
\<close>

subsection \<open>JavaScript numbers\<close>

text \<open>
  A JavaScript number is \<^verbatim>\<open>NaN\<close>, an infinity or a finite double. A finite value is
  kept as the rational it is. An arithmetic operation of the script yields the double
  nearest to the exact result: \<open>js_add\<close>, \<open>js_sub\<close>, \<open>js_mul\<close> and \<open>js_div\<close> below
  give the exact result, and \<open>rounded\<close> is the rounding to the nearest double. The
  script forms its numbers from integers (counters, the results of \<^verbatim>\<open>parseInt\<close>, their
  sums and differences), which are doubles as they are, and from quotients of two such
  integers, which are not. The rounding is written out where it changes what the script
  goes on to compute: in the percentage \<^verbatim>\<open>(score / length) * 100\<close> (23 of 40: the double
  \<^verbatim>\<open>(23/40)*100\<close> lies just below 57.5 and \<^verbatim>\<open>Math.round\<close> gives 57). The average
  \<^verbatim>\<open>Math.round(total / length)\<close> is the same with the quotient rounded and exact
  (\<open>average_rounding\<close> below), and is taken exact. Negative zero does not arise.
\<close>

datatype number = NaN | PosInfinity | NegInfinity | Fin rat

fun js_neg :: "number \<Rightarrow> number" where
  "js_neg NaN = NaN"
| "js_neg PosInfinity = NegInfinity"
| "js_neg NegInfinity = PosInfinity"
| "js_neg (Fin a) = Fin (- a)"

fun js_add :: "number \<Rightarrow> number \<Rightarrow> number" where
  "js_add (Fin a) (Fin b) = Fin (a + b)"
| "js_add NaN _ = NaN"
| "js_add _ NaN = NaN"
| "js_add PosInfinity NegInfinity = NaN"
| "js_add NegInfinity PosInfinity = NaN"
| "js_add PosInfinity _ = PosInfinity"
| "js_add _ PosInfinity = PosInfinity"
| "js_add NegInfinity _ = NegInfinity"
| "js_add _ NegInfinity = NegInfinity"

definition js_sub :: "number \<Rightarrow> number \<Rightarrow> number" where
  "js_sub a b = js_add a (js_neg b)"

text \<open>The infinity (or \<^verbatim>\<open>NaN\<close>) with the sign of a rational: the value of \<^verbatim>\<open>r * Infinity\<close>.\<close>

definition signed_infinity :: "rat \<Rightarrow> number" where
  "signed_infinity r = (if r = 0 then NaN else if 0 < r then PosInfinity else NegInfinity)"

fun js_mul :: "number \<Rightarrow> number \<Rightarrow> number" where
  "js_mul (Fin a) (Fin b) = Fin (a * b)"
| "js_mul NaN _ = NaN"
| "js_mul _ NaN = NaN"
| "js_mul PosInfinity (Fin b) = signed_infinity b"
| "js_mul (Fin a) PosInfinity = signed_infinity a"
| "js_mul NegInfinity (Fin b) = signed_infinity (- b)"
| "js_mul (Fin a) NegInfinity = signed_infinity (- a)"
| "js_mul PosInfinity PosInfinity = PosInfinity"
| "js_mul NegInfinity NegInfinity = PosInfinity"
| "js_mul PosInfinity NegInfinity = NegInfinity"
| "js_mul NegInfinity PosInfinity = NegInfinity"

fun js_div :: "number \<Rightarrow> number \<Rightarrow> number" where
  "js_div (Fin a) (Fin b) = (if b = 0 then signed_infinity a else Fin (a / b))"
| "js_div NaN _ = NaN"
| "js_div _ NaN = NaN"
| "js_div (Fin a) _ = Fin 0"
| "js_div PosInfinity (Fin b) = (if 0 \<le> b then PosInfinity else NegInfinity)"
| "js_div NegInfinity (Fin b) = (if 0 \<le> b then NegInfinity else PosInfinity)"
| "js_div _ _ = NaN"

text \<open>The comparisons \<^verbatim>\<open><\<close> and \<^verbatim>\<open><=\<close>: false as soon as one side is \<^verbatim>\<open>NaN\<close>.\<close>

fun js_lt :: "number \<Rightarrow> number \<Rightarrow> bool" where
  "js_lt (Fin a) (Fin b) = (a < b)"
| "js_lt NaN _ = False"
| "js_lt _ NaN = False"
| "js_lt PosInfinity _ = False"
| "js_lt _ PosInfinity = True"
| "js_lt _ NegInfinity = False"
| "js_lt NegInfinity _ = True"

fun js_le :: "number \<Rightarrow> number \<Rightarrow> bool" where
  "js_le (Fin a) (Fin b) = (a \<le> b)"
| "js_le NaN _ = False"
| "js_le _ NaN = False"
| "js_le _ PosInfinity = True"
| "js_le PosInfinity _ = False"
| "js_le NegInfinity _ = True"
| "js_le _ NegInfinity = False"

definition js_gt :: "number \<Rightarrow> number \<Rightarrow> bool" where
  "js_gt a b = js_lt b a"

definition js_ge :: "number \<Rightarrow> number \<Rightarrow> bool" where
  "js_ge a b = js_le b a"

text \<open>\<^verbatim>\<open>Math.round\<close>: the nearest integer, a half going up.\<close>

fun Math_round :: "number \<Rightarrow> number" where
  "Math_round (Fin a) = Fin (of_int \<lfloor>a + 1 / 2\<rfloor>)"
| "Math_round x = x"

text \<open>A counter or a length, as the number it is in the script.\<close>

definition num :: "nat \<Rightarrow> number" where
  "num n = Fin (of_nat n)"

text \<open>
  The double nearest to a rational, as IEEE 754 has it: 53 significant bits, a tie going
  to the even significand, exponents down to the subnormal numbers (multiples of
  \<open>2 powi - 1074\<close>), and an infinity in place of a result of magnitude \<open>2 powi 1024\<close> or
  more. \<open>floor_log2 r\<close> is the \<open>e\<close> with \<open>2 powi e \<le> r < 2 powi (e + 1)\<close> for a positive
  \<open>r\<close>, and \<open>bitlen n\<close> exceeds 1024 exactly when \<open>n\<close> is \<open>2 powi 1024\<close> or more.
\<close>

definition round_half_even :: "rat \<Rightarrow> int" where
  "round_half_even y =
     (let f = \<lfloor>y\<rfloor>; d = y - of_int f
      in if d < 1 / 2 then f else if 1 / 2 < d then f + 1
         else if even f then f else f + 1)"

definition floor_log2 :: "rat \<Rightarrow> int" where
  "floor_log2 r =
     (let (p, q) = quotient_of r; k = bitlen p - bitlen q
      in if 2 powi k \<le> r then k else k - 1)"

definition to_double :: "rat \<Rightarrow> number" where
  "to_double r =
     (if r = 0 then Fin 0
      else
        let e = floor_log2 \<bar>r\<bar>;
            u = 2 powi (max (e - 52) (- 1074));
            d = of_int (round_half_even (r / u)) * u
        in if 1024 < bitlen \<lfloor>\<bar>d\<bar>\<rfloor> then signed_infinity r else Fin d)"

fun rounded :: "number \<Rightarrow> number" where
  "rounded (Fin a) = to_double a"
| "rounded x = x"

subsection \<open>The data\<close>

text \<open>
  An entry of \<^verbatim>\<open>userAnswers\<close>. \<^verbatim>\<open>userAnswer\<close> is the text of the chosen answer, the
  string \<^verbatim>\<open>'Skipped'\<close>, or \<^verbatim>\<open>null\<close>.
\<close>

record answer_record =
  question :: string
  userAnswer :: "string option"
  correctAnswer :: string
  isCorrect :: bool
  timeSpent :: number

record settings =
  numQuestions :: number
  category :: string
  difficulty :: string
  timePerQuestion :: number

text \<open>A question as \<^verbatim>\<open>ApiService.fetchQuestions\<close> returns it.\<close>

record quiz_question =
  question :: string
  category :: string
  correct_answer :: string
  incorrect_answers :: "string list"

text \<open>
  \<^verbatim>\<open>class QuizState\<close>. \<^verbatim>\<open>timer\<close> is the handle \<^verbatim>\<open>setInterval\<close> returned or
  \<^verbatim>\<open>null\<close>; \<^verbatim>\<open>startTime\<close> and \<^verbatim>\<open>questionStartTime\<close> are values of \<^verbatim>\<open>Date.now()\<close>
  or \<^verbatim>\<open>null\<close>.
\<close>

record QuizState =
  questions :: "quiz_question list"
  currentQuestionIndex :: nat
  score :: nat
  streak :: nat
  bestStreak :: nat
  timeLeft :: number
  timer :: "nat option"
  startTime :: "nat option"
  questionStartTime :: "nat option"
  questionTimes :: "number list"
  userAnswers :: "answer_record list"
  settings :: settings
  isAnswered :: bool
  isQuizActive :: bool

text \<open>The constructor of \<^verbatim>\<open>QuizState\<close> (lines 24 to 44).\<close>

definition new_QuizState :: QuizState where
  "new_QuizState =
     \<lparr>questions = [], currentQuestionIndex = 0, score = 0, streak = 0, bestStreak = 0,
      timeLeft = Fin 0, timer = None, startTime = None, questionStartTime = None,
      questionTimes = [], userAnswers = [],
      settings = \<lparr>numQuestions = Fin 10, settings.category = [], difficulty = ''medium'',
                  timePerQuestion = Fin 20\<rparr>,
      isAnswered = False, isQuizActive = False\<rparr>"

text \<open>\<^verbatim>\<open>incrementScore\<close> and \<^verbatim>\<open>resetStreak\<close> (lines 65 to 73).\<close>

definition incrementScore :: "QuizState \<Rightarrow> QuizState" where
  "incrementScore s =
     (let s1 = s\<lparr>score := score s + 1\<rparr>;
          s2 = s1\<lparr>streak := streak s1 + 1\<rparr>
      in s2\<lparr>bestStreak := max (bestStreak s2) (streak s2)\<rparr>)"

definition resetStreak :: "QuizState \<Rightarrow> QuizState" where
  "resetStreak s = s\<lparr>streak := 0\<rparr>"

text \<open>
  \<^verbatim>\<open>recordQuestionTime\<close> (lines 75 to 80). The test \<^verbatim>\<open>if (this.questionStartTime)\<close>
  holds for a time stamp other than 0.
\<close>

definition truthy_time :: "nat option \<Rightarrow> bool" where
  "truthy_time t = (case t of None \<Rightarrow> False | Some n \<Rightarrow> n \<noteq> 0)"

definition recordQuestionTime :: "QuizState \<Rightarrow> QuizState" where
  "recordQuestionTime s =
     (if truthy_time (questionStartTime s)
      then s\<lparr>questionTimes :=
               questionTimes s @ [js_sub (timePerQuestion (settings s)) (timeLeft s)]\<rparr>
      else s)"

text \<open>\<^verbatim>\<open>getAverageTime\<close> (lines 82 to 86).\<close>

definition getAverageTime :: "QuizState \<Rightarrow> number" where
  "getAverageTime s =
     (if length (questionTimes s) = 0 then Fin 0
      else let total = foldl js_add (Fin 0) (questionTimes s)
           in Math_round (js_div total (num (length (questionTimes s)))))"

text \<open>
  \<^verbatim>\<open>CONFIG.PERFORMANCE_MESSAGES\<close> (lines 13 to 19), in the order \<^verbatim>\<open>Object.entries\<close>
  walks it. The messages are kept without their leading emoji.
\<close>

datatype tier = EXCELLENT | VERY_GOOD | GOOD | FAIR | POOR

record performance =
  key :: tier
  minimum :: number
  message :: string
  class_name :: string

definition PERFORMANCE_MESSAGES :: "performance list" where
  "PERFORMANCE_MESSAGES =
     [\<lparr>key = EXCELLENT, minimum = Fin 90, message = ''Excellent! You are a quiz master!'',
       class_name = ''success''\<rparr>,
      \<lparr>key = VERY_GOOD, minimum = Fin 80, message = ''Very Good! Keep up the great work!'',
       class_name = ''success''\<rparr>,
      \<lparr>key = GOOD, minimum = Fin 70, message = ''Good job! You are on the right track!'',
       class_name = ''info''\<rparr>,
      \<lparr>key = FAIR, minimum = Fin 60, message = ''Fair performance. Practice makes perfect!'',
       class_name = ''warning''\<rparr>,
      \<lparr>key = POOR, minimum = Fin 0, message = ''Do not give up! Learning is a journey!'',
       class_name = ''error''\<rparr>]"

text \<open>
  \<^verbatim>\<open>getPerformanceMessage\<close> (lines 88 to 96): the loop returns the first entry with
  \<^verbatim>\<open>percentage >= config.min\<close>, and the statement after the loop returns the last entry
  of the table when no entry passed the test.
\<close>

fun first_reached :: "number \<Rightarrow> performance list \<Rightarrow> performance option" where
  "first_reached percentage [] = None"
| "first_reached percentage (config # rest) =
     (if js_ge percentage (minimum config) then Some config
      else first_reached percentage rest)"

definition unrounded_percentage :: "QuizState \<Rightarrow> number" where
  "unrounded_percentage s =
     rounded (js_mul (rounded (js_div (num (score s)) (num (length (questions s)))))
       (Fin 100))"

definition getPerformanceMessage :: "QuizState \<Rightarrow> performance" where
  "getPerformanceMessage s =
     (case first_reached (unrounded_percentage s) PERFORMANCE_MESSAGES of
        Some config \<Rightarrow> config
      | None \<Rightarrow> last PERFORMANCE_MESSAGES)"

subsection \<open>\<^verbatim>\<open>Utils.shuffleArray\<close>\<close>

text \<open>
  The destructuring assignment \<^verbatim>\<open>[a[i], a[j]] = [a[j], a[i]]\<close> reads both elements
  and then writes them.
\<close>

definition swap :: "nat \<Rightarrow> nat \<Rightarrow> 'a list \<Rightarrow> 'a list" where
  "swap i j xs = xs[i := xs ! j, j := xs ! i]"

text \<open>
  \<^verbatim>\<open>Math.random\<close> is the sequence \<open>rnd\<close> of the values it returns, of which \<open>k\<close> have
  been consumed. \<open>random_index rnd k i\<close> is \<^verbatim>\<open>Math.floor(Math.random() * (i + 1))\<close>.
\<close>

definition random_index :: "(nat \<Rightarrow> rat) \<Rightarrow> nat \<Rightarrow> nat \<Rightarrow> nat" where
  "random_index rnd k i = nat \<lfloor>rnd k * of_nat (i + 1)\<rfloor>"

text \<open>
  Arrays are objects: a variable holds a reference, and a write through one reference is
  seen through every other. The store maps references to the arrays they point to;
  \<open>free\<close> is the next unused reference.
\<close>

record 'a store =
  cells :: "nat \<Rightarrow> 'a list option"
  free :: nat

text \<open>
  The loop of \<^verbatim>\<open>shuffleArray\<close> (lines 109 to 112) on the array behind the reference
  \<open>shuffled\<close>; the counter runs from the given value down to 1.
\<close>

fun shuffle_loop :: "(nat \<Rightarrow> rat) \<Rightarrow> nat \<Rightarrow> nat \<Rightarrow> nat \<Rightarrow> 'a store \<Rightarrow> 'a store" where
  "shuffle_loop rnd k shuffled 0 h = h"
| "shuffle_loop rnd k shuffled (Suc i) h =
     (let j = random_index rnd k (Suc i)
      in shuffle_loop rnd (Suc k) shuffled i
           (case cells h shuffled of
              None \<Rightarrow> h
            | Some ys \<Rightarrow> h\<lparr>cells := (cells h)(shuffled \<mapsto> swap (Suc i) j ys)\<rparr>))"

text \<open>
  \<^verbatim>\<open>shuffleArray(array)\<close> (lines 107 to 114): the spread \<^verbatim>\<open>[...array]\<close> allocates the
  copy, the loop works on the copy, and the reference of the copy is returned. Spreading
  what is not an array raises a \<^verbatim>\<open>TypeError\<close>.
\<close>

definition shuffleArray ::
  "(nat \<Rightarrow> rat) \<Rightarrow> nat \<Rightarrow> nat \<Rightarrow> 'a store \<Rightarrow> (nat \<times> 'a store) option" where
  "shuffleArray rnd k array h =
     (case cells h array of
        None \<Rightarrow> None
      | Some xs \<Rightarrow>
          let shuffled = free h;
              h1 = h\<lparr>cells := (cells h)(shuffled \<mapsto> xs), free := Suc (free h)\<rparr>
          in Some (shuffled, shuffle_loop rnd k shuffled (length xs - 1) h1))"

text \<open>
  The same loop on the value of the copy, for the callers that only use the array
  returned (\<^verbatim>\<open>generateAnswers\<close> passes an array it has just built).
\<close>

fun shuffle_values :: "(nat \<Rightarrow> rat) \<Rightarrow> nat \<Rightarrow> nat \<Rightarrow> 'a list \<Rightarrow> 'a list" where
  "shuffle_values rnd k 0 ys = ys"
| "shuffle_values rnd k (Suc i) ys =
     shuffle_values rnd (Suc k) i (swap (Suc i) (random_index rnd k (Suc i)) ys)"

definition shuffled_copy :: "(nat \<Rightarrow> rat) \<Rightarrow> nat \<Rightarrow> 'a list \<Rightarrow> 'a list" where
  "shuffled_copy rnd k xs = shuffle_values rnd k (length xs - 1) xs"

subsection \<open>The application and the browser around it\<close>

datatype screen = StartScreen | QuizScreen | EndScreen | ReviewScreen

text \<open>What \<^verbatim>\<open>showResults\<close> writes into the end screen (lines 860 to 890).\<close>

record results_view =
  finalScore :: nat
  totalScore :: nat
  scorePercentage :: number
  correctCount :: nat
  incorrectCount :: number
  avgTime :: number
  bestStreakShown :: nat
  performanceData :: performance

text \<open>
  \<open>state\<close> is \<^verbatim>\<open>this.state\<close>. \<open>intervals\<close> holds the handles of the interval timers that
  are live, in the order they were started; \<open>advances\<close> counts the callbacks that
  \<^verbatim>\<open>handleTimeUp\<close> has scheduled with \<^verbatim>\<open>setTimeout\<close> and that have not run yet;
  \<open>nextHandle\<close> is the handle the next \<^verbatim>\<open>setInterval\<close> returns. \<open>rendered a\<close> is the
  text (\<^verbatim>\<open>textContent\<close>) of the element that the browser's parser builds from the
  markup \<^verbatim>\<open><span class="text">a</span>\<close>: \<open>a\<close> itself when \<open>a\<close> has no markup in it, and
  for instance the empty text for \<^verbatim>\<open><b>\<close>. \<open>answerElements\<close> are
  the texts of the \<^verbatim>\<open>.answer\<close> elements of the page and \<open>selected\<close> the text of the one
  with class \<^verbatim>\<open>selected\<close>. \<open>storage\<close> is the settings saved under
  \<^verbatim>\<open>CONFIG.STORAGE_KEY\<close>; \<open>storageWorks\<close> tells whether \<^verbatim>\<open>localStorage.setItem\<close>
  succeeds.
\<close>

record app =
  state :: QuizState
  intervals :: "nat list"
  advances :: nat
  nextHandle :: nat
  now :: nat
  random :: "nat \<Rightarrow> rat"
  drawn :: nat
  rendered :: "string \<Rightarrow> string"
  answerElements :: "string list"
  selected :: "string option"
  screen :: screen
  errorModal :: "(string \<times> string) option"
  storage :: "settings option"
  storageWorks :: bool
  results :: "results_view option"

text \<open>
  A method that can raise returns the application as the raise left it: the assignments
  made before a \<^verbatim>\<open>TypeError\<close> stay.
\<close>

datatype outcome = Returned app | Threw app

fun app_of :: "outcome \<Rightarrow> app" where
  "app_of (Returned w) = w"
| "app_of (Threw w) = w"

definition showError :: "string \<Rightarrow> string \<Rightarrow> app \<Rightarrow> app" where
  "showError title msg w = w\<lparr>errorModal := Some (title, msg)\<rparr>"

text \<open>\<^verbatim>\<open>clearInterval\<close> of the browser, and \<^verbatim>\<open>QuizState.clearTimer\<close> (lines 58 to 63).\<close>

definition clearInterval :: "nat \<Rightarrow> app \<Rightarrow> app" where
  "clearInterval h w = w\<lparr>intervals := removeAll h (intervals w)\<rparr>"

definition clearTimer :: "app \<Rightarrow> app" where
  "clearTimer w =
     (case timer (state w) of
        None \<Rightarrow> w
      | Some h \<Rightarrow>
          if h = 0 then w
          else (clearInterval h w)\<lparr>state := (state w)\<lparr>timer := None\<rparr>\<rparr>)"

text \<open>\<^verbatim>\<open>QuizState.reset\<close> (lines 46 to 56).\<close>

definition reset :: "app \<Rightarrow> app" where
  "reset w =
     clearTimer (w\<lparr>state := (state w)\<lparr>currentQuestionIndex := 0, score := 0, streak := 0,
       bestStreak := 0, questionTimes := [], userAnswers := [], isAnswered := False,
       isQuizActive := False\<rparr>\<rparr>)"

text \<open>
  \<^verbatim>\<open>collectSettings\<close> (lines 576 to 583). The argument is what the form holds, the two
  numeric fields already through \<^verbatim>\<open>parseInt\<close>: an integer, or \<^verbatim>\<open>NaN\<close> for a field
  that does not start with digits.
\<close>

definition collectSettings :: "settings \<Rightarrow> app \<Rightarrow> app" where
  "collectSettings form w = w\<lparr>state := (state w)\<lparr>settings := form\<rparr>\<rparr>"

text \<open>
  \<^verbatim>\<open>saveSettings\<close> (lines 511 to 517) with \<^verbatim>\<open>Utils.saveToStorage\<close> (lines 145 to 151),
  which swallows a failure of \<^verbatim>\<open>localStorage.setItem\<close>.
\<close>

definition saveSettings :: "app \<Rightarrow> app" where
  "saveSettings w =
     (if storageWorks w then w\<lparr>storage := Some (settings (state w))\<rparr> else w)"

text \<open>\<^verbatim>\<open>validateSettings\<close> (lines 585 to 599): the value returned and the dialog shown.\<close>

definition validateSettings :: "app \<Rightarrow> bool \<times> app" where
  "validateSettings w =
     (let numQuestions = numQuestions (settings (state w));
          timePerQuestion = timePerQuestion (settings (state w))
      in if js_lt numQuestions (Fin 1) \<or> js_gt numQuestions (Fin 50)
         then (False, showError ''Invalid Settings''
                 ''Number of questions must be between 1 and 50'' w)
         else if js_lt timePerQuestion (Fin 5) \<or> js_gt timePerQuestion (Fin 300)
         then (False, showError ''Invalid Settings''
                 ''Time per question must be between 5 and 300 seconds'' w)
         else (True, w))"

text \<open>\<^verbatim>\<open>showResults\<close> (lines 860 to 890) and \<^verbatim>\<open>endQuiz\<close> (lines 854 to 858).\<close>

definition showResults :: "app \<Rightarrow> app" where
  "showResults w =
     (let s = state w;
          totalQuestions = length (questions s);
          percentage =
            Math_round (rounded (js_mul (rounded (js_div (num (score s))
              (num totalQuestions))) (Fin 100)));
          incorrect = js_sub (num totalQuestions) (num (score s))
      in w\<lparr>screen := EndScreen,
           results := Some \<lparr>finalScore = score s, totalScore = totalQuestions,
             scorePercentage = percentage, correctCount = score s,
             incorrectCount = incorrect, avgTime = getAverageTime s,
             bestStreakShown = bestStreak s,
             performanceData = getPerformanceMessage s\<rparr>\<rparr>)"

definition endQuiz :: "app \<Rightarrow> app" where
  "endQuiz w = showResults (clearTimer (w\<lparr>state := (state w)\<lparr>isQuizActive := False\<rparr>\<rparr>))"

text \<open>
  \<^verbatim>\<open>generateAnswers\<close> (lines 640 to 671): the answer elements are rebuilt from the
  shuffled array, none of them selected. Each answer is written into the markup of its
  element (\<^verbatim>\<open>innerHTML\<close>, lines 654 to 659), so the text of the element, which
  \<^verbatim>\<open>submitAnswer\<close> reads back (line 705), is the answer as the browser renders it.
\<close>

definition generateAnswers :: "quiz_question \<Rightarrow> app \<Rightarrow> app" where
  "generateAnswers q w =
     (let allAnswers = incorrect_answers q @ [correct_answer q];
          shuffledAnswers = shuffled_copy (random w) (drawn w) allAnswers
      in w\<lparr>answerElements := map (rendered w) shuffledAnswers, selected := None,
           drawn := drawn w + (length allAnswers - 1)\<rparr>)"

text \<open>
  \<^verbatim>\<open>startTimer\<close> (lines 796 to 815): \<^verbatim>\<open>timeLeft\<close> is set and a new interval is
  started, its handle stored in \<^verbatim>\<open>this.state.timer\<close>.
\<close>

definition startTimer :: "app \<Rightarrow> app" where
  "startTimer w =
     (let h = nextHandle w
      in w\<lparr>state := (state w)\<lparr>timeLeft := timePerQuestion (settings (state w)),
                                timer := Some h\<rparr>,
           intervals := intervals w @ [h], nextHandle := Suc h\<rparr>)"

text \<open>\<^verbatim>\<open>showQuestion\<close> (lines 601 to 638).\<close>

definition showQuestion :: "nat \<Rightarrow> app \<Rightarrow> app" where
  "showQuestion index w =
     (if index \<ge> length (questions (state w)) then endQuiz w
      else let q = questions (state w) ! index;
               w1 = w\<lparr>state := (state w)\<lparr>currentQuestionIndex := index,
                      isAnswered := False, questionStartTime := Some (now w)\<rparr>\<rparr>
           in startTimer (generateAnswers q w1))"

text \<open>\<^verbatim>\<open>selectAnswer\<close> (lines 673 to 692), given the text of the element clicked.\<close>

definition selectAnswer :: "string \<Rightarrow> app \<Rightarrow> app" where
  "selectAnswer answerText w =
     (if isAnswered (state w) then w else w\<lparr>selected := Some answerText\<rparr>)"

text \<open>
  \<^verbatim>\<open>submitAnswer\<close> (lines 694 to 750). \<^verbatim>\<open>question\<close> is \<^verbatim>\<open>undefined\<close> when the index
  is not below the number of questions, and reading a property of it raises.
\<close>

definition submitAnswer :: "app \<Rightarrow> outcome" where
  "submitAnswer w =
     (if isAnswered (state w) then Returned w
      else
        let w1 = w\<lparr>state := (state w)\<lparr>isAnswered := True\<rparr>\<rparr>;
            w2 = clearTimer w1;
            w3 = w2\<lparr>state := recordQuestionTime (state w2)\<rparr>;
            s = state w3;
            defined = currentQuestionIndex s < length (questions s);
            q = questions s ! currentQuestionIndex s
        in case selected w3 of
             Some answer \<Rightarrow>
               if \<not> defined then Threw w3
               else
                 let correct = (answer = correct_answer q);
                     s1 = s\<lparr>userAnswers := userAnswers s @
                            [\<lparr>answer_record.question = question q,
                              userAnswer = Some answer,
                              correctAnswer = correct_answer q,
                              isCorrect = correct,
                              timeSpent =
                                js_sub (timePerQuestion (settings s)) (timeLeft s)\<rparr>]\<rparr>
                 in Returned (w3\<lparr>state :=
                      (if correct then incrementScore s1 else resetStreak s1)\<rparr>)
           | None \<Rightarrow>
               let s1 = resetStreak s
               in if \<not> defined then Threw (w3\<lparr>state := s1\<rparr>)
                  else Returned (w3\<lparr>state := s1\<lparr>userAnswers := userAnswers s1 @
                         [\<lparr>answer_record.question = question q,
                           userAnswer = None,
                           correctAnswer = correct_answer q,
                           isCorrect = False,
                           timeSpent = timePerQuestion (settings s1)\<rparr>]\<rparr>\<rparr>))"

text \<open>\<^verbatim>\<open>nextQuestion\<close> (lines 761 to 768).\<close>

definition nextQuestion :: "app \<Rightarrow> app" where
  "nextQuestion w =
     (let nextIndex = currentQuestionIndex (state w) + 1
      in if nextIndex < length (questions (state w)) then showQuestion nextIndex w
         else endQuiz w)"

text \<open>\<^verbatim>\<open>skipQuestion\<close> (lines 770 to 794).\<close>

definition skipQuestion :: "app \<Rightarrow> outcome" where
  "skipQuestion w =
     (if isAnswered (state w) then Returned w
      else
        let w1 = w\<lparr>state := (state w)\<lparr>isAnswered := True\<rparr>\<rparr>;
            w2 = clearTimer w1;
            w3 = w2\<lparr>state := resetStreak (state w2)\<rparr>;
            s = state w3;
            q = questions s ! currentQuestionIndex s
        in if \<not> currentQuestionIndex s < length (questions s) then Threw w3
           else Returned (w3\<lparr>state := s\<lparr>userAnswers := userAnswers s @
                  [\<lparr>answer_record.question = question q,
                    userAnswer = Some ''Skipped'',
                    correctAnswer = correct_answer q,
                    isCorrect = False,
                    timeSpent = Fin 0\<rparr>]\<rparr>\<rparr>))"

text \<open>
  \<^verbatim>\<open>handleTimeUp\<close> (lines 817 to 834). The callback handed to \<^verbatim>\<open>setTimeout\<close> is
  \<open>autoAdvance\<close>; scheduling it raises the count of pending callbacks. A raise in
  \<^verbatim>\<open>submitAnswer\<close> leaves the method before the callback is scheduled.
\<close>

definition handleTimeUp :: "app \<Rightarrow> outcome" where
  "handleTimeUp w =
     (if isAnswered (state w) then Returned w
      else case submitAnswer (clearTimer w) of
             Threw w1 \<Rightarrow> Threw w1
           | Returned w1 \<Rightarrow> Returned (w1\<lparr>advances := Suc (advances w1)\<rparr>))"

definition autoAdvance :: "app \<Rightarrow> app" where
  "autoAdvance w =
     (if int (currentQuestionIndex (state w)) < int (length (questions (state w))) - 1
      then nextQuestion w
      else endQuiz w)"

text \<open>The callback of the interval started by \<^verbatim>\<open>startTimer\<close> (lines 800 to 814).\<close>

definition timerTick :: "app \<Rightarrow> outcome" where
  "timerTick w =
     (let w1 = w\<lparr>state := (state w)\<lparr>timeLeft := js_sub (timeLeft (state w)) (Fin 1)\<rparr>\<rparr>
      in if js_le (timeLeft (state w1)) (Fin 0) then handleTimeUp w1 else Returned w1)"

text \<open>\<^verbatim>\<open>quitQuiz\<close> and \<^verbatim>\<open>restartQuiz\<close> (lines 926 to 939).\<close>

definition quitQuiz :: "app \<Rightarrow> app" where
  "quitQuiz w = (reset w)\<lparr>screen := StartScreen\<rparr>"

definition restartQuiz :: "app \<Rightarrow> app" where
  "restartQuiz w = (reset w)\<lparr>screen := StartScreen\<rparr>"

text \<open>
  \<^verbatim>\<open>startQuiz\<close> (lines 532 to 574). The second argument is what the awaited
  \<^verbatim>\<open>ApiService.fetchQuestions\<close> produced: the questions, or the message of the error it
  raised. The request itself is outside the script's control and no other event is taken
  to run while it is pending. The \<^verbatim>\<open>catch\<close> block shows the message of whatever was
  raised inside \<^verbatim>\<open>try\<close>.
\<close>

datatype fetch_result = FetchFailed string | FetchOk "quiz_question list"

definition startQuiz :: "settings \<Rightarrow> fetch_result \<Rightarrow> app \<Rightarrow> app" where
  "startQuiz form fetched w =
     (let w1 = collectSettings form w;
          w2 = saveSettings w1;
          (valid, w3) = validateSettings w2
      in if \<not> valid then w3
         else case fetched of
                FetchFailed msg \<Rightarrow> showError ''Failed to Start Quiz'' msg w3
              | FetchOk qs \<Rightarrow>
                  let w4 = w3\<lparr>state := (state w3)\<lparr>questions := qs\<rparr>\<rparr>
                  in if length qs = 0
                     then showError ''Failed to Start Quiz''
                            ''No questions received from the server'' w4
                     else
                       let w5 = reset w4;
                           w6 = w5\<lparr>state := (state w5)\<lparr>isQuizActive := True,
                                  startTime := Some (now w5)\<rparr>\<rparr>;
                           w7 = w6\<lparr>screen := QuizScreen\<rparr>
                       in showQuestion 0 w7)"

text \<open>
  The constructor of \<^verbatim>\<open>QuizApp\<close> with \<^verbatim>\<open>loadSettings\<close> (lines 482 to 509), in a
  browser whose \<^verbatim>\<open>Math.random\<close> returns \<open>rnd\<close>, whose clock shows \<open>clock\<close>, whose
  parser renders markup as \<open>html\<close> says and whose local storage holds \<open>saved\<close>.
\<close>

definition new_QuizApp ::
  "(nat \<Rightarrow> rat) \<Rightarrow> nat \<Rightarrow> (string \<Rightarrow> string) \<Rightarrow> settings option \<Rightarrow> bool \<Rightarrow> app" where
  "new_QuizApp rnd clock html saved works =
     \<lparr>state = (case saved of
                 None \<Rightarrow> new_QuizState
               | Some st \<Rightarrow> new_QuizState\<lparr>settings := st\<rparr>),
      intervals = [], advances = 0, nextHandle = 1, now = clock, random = rnd, drawn = 0,
      rendered = html, answerElements = [], selected = None, screen = StartScreen, errorModal = None,
      storage = saved, storageWorks = works, results = None\<rparr>"

subsection \<open>Events\<close>

text \<open>
  What can happen to the page: the clicks and keys that \<^verbatim>\<open>EventHandlers\<close> (lines 347 to
  478) forwards, an interval firing, and a scheduled auto-advance running. A raise that
  reaches the event loop is reported by the \<^verbatim>\<open>error\<close> listener of the window (lines
  1008 to 1011). A click on the quit button stands for a confirmed one. The handlers of
  the buttons are taken as callable whenever the page exists, also while a button is
  hidden; the keyboard handler carries the guards of \<^verbatim>\<open>handleKeyboard\<close>, and a key
  is pressed with the focus outside the answer elements (whose own key handler would
  select the focused answer first).
\<close>

datatype event =
    ClickStart settings fetch_result
  | ClickAnswer nat
  | ClickSubmit
  | ClickNext
  | ClickSkip
  | ClickQuit
  | ClickRestart
  | KeyCtrlEnter
  | KeyCtrlN
  | KeyDigit nat
  | IntervalFires nat
  | TimeoutFires

definition uncaught :: "outcome \<Rightarrow> app" where
  "uncaught r =
     (case r of
        Returned w \<Rightarrow> w
      | Threw w \<Rightarrow> showError ''Application Error''
          ''An unexpected error occurred. Please refresh the page and try again.'' w)"

fun step :: "event \<Rightarrow> app \<Rightarrow> app" where
  "step (ClickStart form fetched) w = startQuiz form fetched w"
| "step (ClickAnswer i) w =
     (if i < length (answerElements w) then selectAnswer (answerElements w ! i) w else w)"
| "step ClickSubmit w = uncaught (submitAnswer w)"
| "step ClickNext w = nextQuestion w"
| "step ClickSkip w = uncaught (skipQuestion w)"
| "step ClickQuit w = quitQuiz w"
| "step ClickRestart w = restartQuiz w"
| "step KeyCtrlEnter w =
     (if isQuizActive (state w) \<and> \<not> isAnswered (state w) then uncaught (submitAnswer w)
      else w)"
| "step KeyCtrlN w = (if isAnswered (state w) then nextQuestion w else w)"
| "step (KeyDigit n) w =
     (if isQuizActive (state w) \<and> \<not> isAnswered (state w) \<and> 1 \<le> n \<and> n \<le> 4
         \<and> n - 1 < length (answerElements w)
      then selectAnswer (answerElements w ! (n - 1)) w else w)"
| "step (IntervalFires h) w =
     (if h \<in> set (intervals w) then uncaught (timerTick w) else w)"
| "step TimeoutFires w =
     (if 0 < advances w then autoAdvance (w\<lparr>advances := advances w - 1\<rparr>) else w)"

fun run :: "event list \<Rightarrow> app \<Rightarrow> app" where
  "run [] w = w"
| "run (e # es) w = run es (step e w)"

subsection \<open>Notions the properties are stated with\<close>

text \<open>
  The three ways a question is resolved: the submit button (or Ctrl+Enter), the timer
  running out, and the skip button.
\<close>

datatype trigger = BySubmit | ByTimeout | BySkip

fun resolve :: "trigger \<Rightarrow> app \<Rightarrow> app" where
  "resolve BySubmit w = app_of (submitAnswer w)"
| "resolve ByTimeout w = app_of (handleTimeUp w)"
| "resolve BySkip w = app_of (skipQuestion w)"

fun resolve_all :: "trigger list \<Rightarrow> app \<Rightarrow> app" where
  "resolve_all [] w = w"
| "resolve_all (t # ts) w = resolve_all ts (resolve t w)"

text \<open>The number of recorded answers that are correct.\<close>

definition correct_answers :: "QuizState \<Rightarrow> nat" where
  "correct_answers s = length (filter isCorrect (userAnswers s))"

text \<open>
  The events of one session: everything but a start, a quit and a restart, which begin or
  end one.
\<close>

fun in_session :: "event \<Rightarrow> bool" where
  "in_session (ClickStart form fetched) = False"
| "in_session ClickQuit = False"
| "in_session ClickRestart = False"
| "in_session e = True"

text \<open>The events of a session in which the user only skips and moves on.\<close>

fun skip_or_next :: "event \<Rightarrow> bool" where
  "skip_or_next ClickSkip = True"
| "skip_or_next ClickNext = True"
| "skip_or_next e = False"

text \<open>The applications a run passes through, and the streaks they show.\<close>

fun trace :: "event list \<Rightarrow> app \<Rightarrow> app list" where
  "trace [] w = [w]"
| "trace (e # es) w = w # trace es (step e w)"

definition streaks_seen :: "event list \<Rightarrow> app \<Rightarrow> nat list" where
  "streaks_seen es w = map (\<lambda>v. streak (state v)) (trace es w)"

text \<open>Settings that pass both tests of \<^verbatim>\<open>validateSettings\<close>.\<close>

definition in_range :: "settings \<Rightarrow> bool" where
  "in_range form =
     (\<not> (js_lt (numQuestions form) (Fin 1) \<or> js_gt (numQuestions form) (Fin 50))
      \<and> \<not> (js_lt (timePerQuestion form) (Fin 5) \<or> js_gt (timePerQuestion form) (Fin 300)))"

text \<open>Score, streak, best streak and recorded answers, and the ways one event moves them.\<close>

type_synonym tallies = "nat \<times> nat \<times> nat \<times> answer_record list"

definition tally :: "app \<Rightarrow> tallies" where
  "tally w = (score (state w), streak (state w), bestStreak (state w), userAnswers (state w))"

definition tally_move :: "bool \<Rightarrow> tallies \<Rightarrow> tallies \<Rightarrow> bool" where
  "tally_move fresh t t' =
     (case t of (sc, st, best, answers) \<Rightarrow>
        t' = t \<or> (fresh \<and> t' = (0, 0, 0, []))
        \<or> (\<exists>r. isCorrect r \<and> t' = (sc + 1, st + 1, max best (st + 1), answers @ [r]))
        \<or> (\<exists>r. \<not> isCorrect r \<and> t' = (sc, 0, best, answers @ [r]))
        \<or> t' = (sc, 0, best, answers))"

text \<open>
  The record a resolution creates for the current question: the one of \<^verbatim>\<open>submitAnswer\<close>
  (lines 709 to 715 with an answer selected, lines 729 to 735 with none), which
  \<^verbatim>\<open>handleTimeUp\<close> calls, and the one of \<^verbatim>\<open>skipQuestion\<close> (lines 780 to 786).
\<close>

definition submitted :: "app \<Rightarrow> answer_record" where
  "submitted w =
     (let s = state w; q = questions s ! currentQuestionIndex s
      in case selected w of
           Some answer \<Rightarrow>
             \<lparr>answer_record.question = question q, userAnswer = Some answer,
              correctAnswer = correct_answer q, isCorrect = (answer = correct_answer q),
              timeSpent = js_sub (timePerQuestion (settings s)) (timeLeft s)\<rparr>
         | None \<Rightarrow>
             \<lparr>answer_record.question = question q, userAnswer = None,
              correctAnswer = correct_answer q, isCorrect = False,
              timeSpent = timePerQuestion (settings s)\<rparr>)"

fun created :: "trigger \<Rightarrow> app \<Rightarrow> answer_record" where
  "created BySubmit w = submitted w"
| "created ByTimeout w = submitted w"
| "created BySkip w =
     (let s = state w; q = questions s ! currentQuestionIndex s
      in \<lparr>answer_record.question = question q, userAnswer = Some ''Skipped'',
          correctAnswer = correct_answer q, isCorrect = False, timeSpent = Fin 0\<rparr>)"

text \<open>What recording an answer does to the tallies.\<close>

definition recorded :: "answer_record \<Rightarrow> tallies \<Rightarrow> tallies" where
  "recorded r t =
     (case t of (sc, st, best, answers) \<Rightarrow>
        if isCorrect r then (sc + 1, st + 1, max best (st + 1), answers @ [r])
        else (sc, 0, best, answers @ [r]))"

text \<open>
  The spec's summary, in its words: the average time is the rounded mean of the time
  spent over the recorded answers, and 0 when there are none; the percentage is
  \<open>round(100 * score / len(questions))\<close>; the tier is the first entry of the table whose
  minimum is at most the percentage.
\<close>

definition spec_averageTimeSeconds :: "answer_record list \<Rightarrow> number" where
  "spec_averageTimeSeconds answers =
     (if answers = [] then Fin 0
      else Math_round (js_div (foldl js_add (Fin 0) (map timeSpent answers))
             (num (length answers))))"

definition spec_percentage :: "nat \<Rightarrow> nat \<Rightarrow> number" where
  "spec_percentage sc n = Math_round (js_div (js_mul (Fin 100) (num sc)) (num n))"

definition spec_tier :: "number \<Rightarrow> performance option" where
  "spec_tier percentage =
     find (\<lambda>config. js_le (minimum config) percentage) PERFORMANCE_MESSAGES"

subsection \<open>Sample inputs\<close>

definition paris :: quiz_question where
  "paris = \<lparr>question = ''What is the capital of France?'', category = ''Geography'',
            correct_answer = ''Paris'', incorrect_answers = [''Rome'', ''Oslo'', ''Bonn'']\<rparr>"

definition five_seconds :: settings where
  "five_seconds = \<lparr>numQuestions = Fin 3, settings.category = [], difficulty = ''easy'',
                    timePerQuestion = Fin 5\<rparr>"

definition twenty_seconds :: settings where
  "twenty_seconds = \<lparr>numQuestions = Fin 2, settings.category = [], difficulty = ''easy'',
                      timePerQuestion = Fin 20\<rparr>"

text \<open>
  A question whose correct answer has markup in it, and a rendering for the examples:
  the element built from \<^verbatim>\<open><b>\<close> has no text, and the other answers of the examples
  have no markup and are their own text.
\<close>

definition bold :: quiz_question where
  "bold = \<lparr>question = ''Which HTML tag makes text bold?'', category = ''Computers'',
           correct_answer = ''<b>'', incorrect_answers = [''bold'', ''strong'', ''heavy'']\<rparr>"

definition shown :: "string \<Rightarrow> string" where
  "shown a = (if a = ''<b>'' then [] else a)"

text \<open>A page just loaded: every \<^verbatim>\<open>Math.random()\<close> returns one half.\<close>

definition loaded :: app where
  "loaded = new_QuizApp (\<lambda>k. 1 / 2) 1000 shown None True"

text \<open>The first of three questions is on the screen; and the same after a skip.\<close>

definition asking :: app where
  "asking = run [ClickStart five_seconds (FetchOk [paris, paris, paris])] loaded"

definition skipped :: app where
  "skipped = run [ClickStart five_seconds (FetchOk [paris, paris, paris]), ClickSkip] loaded"

text \<open>
  The timer of the first of three questions runs out after five ticks, and the user
  clicks Next before the scheduled auto-advance runs.
\<close>

definition overrun :: "event list" where
  "overrun = [ClickStart five_seconds (FetchOk [paris, paris, paris]),
              IntervalFires 1, IntervalFires 1, IntervalFires 1, IntervalFires 1,
              IntervalFires 1, ClickNext]"

text \<open>Eight seconds into a question of twenty, Ctrl+Enter with no answer selected.\<close>

definition early_enter :: "event list" where
  "early_enter = [ClickStart twenty_seconds (FetchOk [paris, paris]),
                  IntervalFires 1, IntervalFires 1, IntervalFires 1, IntervalFires 1,
                  IntervalFires 1, IntervalFires 1, IntervalFires 1, IntervalFires 1,
                  KeyCtrlEnter]"

text \<open>
  Two questions: the first answered (with the second of the answers shown, which is
  ``Paris'') after ten seconds, the second skipped, then on to the results.
\<close>

definition answered_then_skipped :: "event list" where
  "answered_then_skipped = [ClickStart twenty_seconds (FetchOk [paris, paris]),
                  IntervalFires 1, IntervalFires 1, IntervalFires 1, IntervalFires 1,
                  IntervalFires 1, IntervalFires 1, IntervalFires 1, IntervalFires 1,
                  IntervalFires 1, IntervalFires 1,
                  ClickAnswer 1, ClickSubmit, ClickNext, ClickSkip, ClickNext]"

text \<open>Back on the start screen after a quiz was started and quit.\<close>

definition idle_again :: app where
  "idle_again = run [ClickStart five_seconds (FetchOk [paris, paris, paris]), ClickQuit] loaded"

text \<open>A state with 16 of 23 questions answered correctly, and one with 3 of 4.\<close>

definition sixteen_of_23 :: QuizState where
  "sixteen_of_23 = new_QuizState\<lparr>questions := replicate 23 paris, score := 16\<rparr>"

definition three_of_4 :: QuizState where
  "three_of_4 = new_QuizState\<lparr>questions := replicate 4 paris, score := 3\<rparr>"

text \<open>The settings read from a form whose two number fields are empty.\<close>

definition blank :: settings where
  "blank = \<lparr>numQuestions = NaN, settings.category = [], difficulty = ''easy'',
             timePerQuestion = NaN\<rparr>"

text \<open>Ten questions asked for, and the field of the time per question left empty.\<close>

definition no_time :: settings where
  "no_time = \<lparr>numQuestions = Fin 10, settings.category = [], difficulty = ''easy'',
               timePerQuestion = NaN\<rparr>"

text \<open>A state with 23 of 40 questions answered correctly.\<close>

definition twenty_three_of_40 :: QuizState where
  "twenty_three_of_40 = new_QuizState\<lparr>questions := replicate 40 paris, score := 23\<rparr>"

text \<open>Settings that ask for 51 questions.\<close>

definition too_many :: settings where
  "too_many = \<lparr>numQuestions = Fin 51, settings.category = [], difficulty = ''easy'',
                timePerQuestion = Fin 20\<rparr>"

lemmas script_defs =
  new_QuizApp_def new_QuizState_def startQuiz_def collectSettings_def saveSettings_def
  validateSettings_def js_gt_def js_ge_def js_sub_def reset_def clearTimer_def
  clearInterval_def showQuestion_def generateAnswers_def startTimer_def shuffled_copy_def
  random_index_def swap_def uncaught_def timerTick_def handleTimeUp_def submitAnswer_def
  skipQuestion_def selectAnswer_def recordQuestionTime_def truthy_time_def resetStreak_def
  incrementScore_def nextQuestion_def autoAdvance_def endQuiz_def showResults_def
  quitQuiz_def restartQuiz_def showError_def getAverageTime_def getPerformanceMessage_def
  unrounded_percentage_def PERFORMANCE_MESSAGES_def num_def signed_infinity_def Let_def

lemmas sample_defs = paris_def five_seconds_def twenty_seconds_def loaded_def asking_def
  skipped_def overrun_def early_enter_def answered_then_skipped_def idle_again_def
  sixteen_of_23_def three_of_4_def too_many_def bold_def shown_def blank_def
  no_time_def twenty_three_of_40_def

section \<open>Properties\<close>

subsection \<open>Resolving a question\<close>

lemma state_clearTimer [simp]:
  "state (clearTimer w) =
     (state w)\<lparr>timer := (case timer (state w) of None \<Rightarrow> None
                          | Some h \<Rightarrow> if h = 0 then Some h else None)\<rparr>"
  by (simp add: clearTimer_def clearInterval_def split: option.splits)

lemma selected_clearTimer [simp]: "selected (clearTimer w) = selected w"
  by (simp add: clearTimer_def clearInterval_def split: option.splits)

lemma tally_clearTimer [simp]: "tally (clearTimer w) = tally w"
  by (simp add: tally_def)

lemma submitted_clearTimer [simp]: "submitted (clearTimer w) = submitted w"
  by (simp add: submitted_def Let_def split: option.splits)

lemma answered_noop:
  "isAnswered (state w) \<Longrightarrow> submitAnswer w = Returned w"
  "isAnswered (state w) \<Longrightarrow> handleTimeUp w = Returned w"
  "isAnswered (state w) \<Longrightarrow> skipQuestion w = Returned w"
  by (simp_all add: submitAnswer_def handleTimeUp_def skipQuestion_def)

lemma resolve_answered: "isAnswered (state w) \<Longrightarrow> resolve t w = w"
  by (cases t) (simp_all add: answered_noop)

lemma resolve_all_answered: "isAnswered (state w) \<Longrightarrow> resolve_all ts w = w"
  by (induction ts) (simp_all add: resolve_answered)

lemma submitAnswer_open:
  assumes "\<not> isAnswered (state w)"
    and "currentQuestionIndex (state w) < length (questions (state w))"
  shows "\<exists>w'. submitAnswer w = Returned w' \<and> isAnswered (state w')
           \<and> tally w' = recorded (submitted w) (tally w)"
proof (cases "selected w")
  case None
  with assms show ?thesis
    by (simp add: submitAnswer_def Let_def recordQuestionTime_def resetStreak_def
        tally_def recorded_def submitted_def)
next
  case (Some a)
  with assms show ?thesis
    by (cases "a = correct_answer (questions (state w) ! currentQuestionIndex (state w))")
       (simp_all add: submitAnswer_def Let_def recordQuestionTime_def resetStreak_def
        incrementScore_def tally_def recorded_def submitted_def)
qed

lemma skipQuestion_open:
  assumes "\<not> isAnswered (state w)"
    and "currentQuestionIndex (state w) < length (questions (state w))"
  shows "\<exists>w'. skipQuestion w = Returned w' \<and> isAnswered (state w')
           \<and> tally w' = recorded (created BySkip w) (tally w)"
  using assms
  by (simp add: skipQuestion_def Let_def resetStreak_def tally_def recorded_def)

lemma handleTimeUp_open:
  assumes "\<not> isAnswered (state w)"
    and "currentQuestionIndex (state w) < length (questions (state w))"
  shows "\<exists>w'. handleTimeUp w = Returned w' \<and> isAnswered (state w')
           \<and> tally w' = recorded (submitted w) (tally w)"
proof -
  from assms have "\<not> isAnswered (state (clearTimer w))"
    and "currentQuestionIndex (state (clearTimer w)) < length (questions (state (clearTimer w)))"
    by simp_all
  from submitAnswer_open [OF this] obtain w' where
    w': "submitAnswer (clearTimer w) = Returned w'" "isAnswered (state w')"
      "tally w' = recorded (submitted w) (tally w)"
    by auto
  have "tally (w'\<lparr>advances := Suc (advances w')\<rparr>) = tally w'"
    by (simp add: tally_def)
  with w' assms(1) show ?thesis by (simp add: handleTimeUp_def)
qed

lemma resolve_open:
  assumes "\<not> isAnswered (state w)"
    and "currentQuestionIndex (state w) < length (questions (state w))"
  shows "isAnswered (state (resolve t w))"
    and "tally (resolve t w) = recorded (created t w) (tally w)"
proof -
  have "isAnswered (state (resolve t w)) \<and> tally (resolve t w) = recorded (created t w) (tally w)"
  proof (cases t)
    case BySubmit
    with submitAnswer_open [OF assms] show ?thesis by auto
  next
    case ByTimeout
    with handleTimeUp_open [OF assms] show ?thesis by auto
  next
    case BySkip
    with skipQuestion_open [OF assms] show ?thesis by auto
  qed
  then show "isAnswered (state (resolve t w))"
    and "tally (resolve t w) = recorded (created t w) (tally w)" by simp_all
qed

lemma recorded_parts:
  "fst (recorded r t) = (if isCorrect r then fst t + 1 else fst t)"
  "fst (snd (recorded r t)) = (if isCorrect r then fst (snd t) + 1 else 0)"
  "fst (snd (snd (recorded r t))) = max (fst (snd (snd t))) (fst (snd (recorded r t)))"
  "snd (snd (snd (recorded r t))) = snd (snd (snd t)) @ [r]"
  by (simp_all add: recorded_def split: prod.splits)

lemma tally_parts:
  "fst (tally w) = score (state w)"
  "fst (snd (tally w)) = streak (state w)"
  "fst (snd (snd (tally w))) = bestStreak (state w)"
  "snd (snd (snd (tally w))) = userAnswers (state w)"
  by (simp_all add: tally_def)

lemma resolve_open_fields:
  assumes "\<not> isAnswered (state w)"
    and "currentQuestionIndex (state w) < length (questions (state w))"
  shows "userAnswers (state (resolve t w)) = userAnswers (state w) @ [created t w]"
    and "streak (state (resolve t w)) = (if isCorrect (created t w) then streak (state w) + 1 else 0)"
    and "bestStreak (state (resolve t w))
           = max (bestStreak (state w)) (streak (state (resolve t w)))"
    and "score (state (resolve t w))
           = (if isCorrect (created t w) then score (state w) + 1 else score (state w))"
  using recorded_parts [of "created t w" "tally w"]
  unfolding resolve_open(2) [OF assms, of t, symmetric] tally_parts
  by simp_all

text \<open>
  Claim C1. Once the current question is answered, \<^verbatim>\<open>submitAnswer\<close>,
  \<^verbatim>\<open>handleTimeUp\<close> and \<^verbatim>\<open>skipQuestion\<close> return without changing anything, so no
  sequence of them changes the recorded answers, the score or the streak. And whichever of
  the three resolves an open question, and however many of them follow, the question gets
  exactly one record: the one the first of them creates.
\<close>

theorem one_record_per_question:
  "(isAnswered (state w) \<longrightarrow>
      submitAnswer w = Returned w \<and> handleTimeUp w = Returned w \<and> skipQuestion w = Returned w
      \<and> userAnswers (state (resolve_all ts w)) = userAnswers (state w)
      \<and> score (state (resolve_all ts w)) = score (state w)
      \<and> streak (state (resolve_all ts w)) = streak (state w))
   \<and> (\<not> isAnswered (state w) \<and> currentQuestionIndex (state w) < length (questions (state w))
        \<and> ts \<noteq> [] \<longrightarrow>
      userAnswers (state (resolve_all ts w)) = userAnswers (state w) @ [created (hd ts) w])"
proof (intro conjI impI)
  assume a: "\<not> isAnswered (state w)
    \<and> currentQuestionIndex (state w) < length (questions (state w)) \<and> ts \<noteq> []"
  then obtain t ts' where ts: "ts = t # ts'" by (cases ts) auto
  from a have "isAnswered (state (resolve t w))"
    and "userAnswers (state (resolve t w)) = userAnswers (state w) @ [created t w]"
    by (simp_all add: resolve_open(1) resolve_open_fields(1))
  then show "userAnswers (state (resolve_all ts w)) = userAnswers (state w) @ [created (hd ts) w]"
    by (simp add: ts resolve_all_answered)
qed (simp_all add: answered_noop resolve_all_answered)

theorem one_record_per_question_witness:
  "isAnswered (state skipped)
   \<and> submitAnswer skipped = Returned skipped \<and> handleTimeUp skipped = Returned skipped
   \<and> skipQuestion skipped = Returned skipped
   \<and> userAnswers (state (resolve_all [BySubmit, ByTimeout, BySkip] skipped))
       = userAnswers (state skipped)
   \<and> \<not> isAnswered (state asking)
   \<and> currentQuestionIndex (state asking) < length (questions (state asking))
   \<and> userAnswers (state (resolve_all [ByTimeout, BySubmit, BySkip] asking))
       = userAnswers (state asking) @ [created ByTimeout asking]"
proof -
  have a: "isAnswered (state skipped)"
    by (simp add: sample_defs script_defs)
  have b: "\<not> isAnswered (state asking)"
    "currentQuestionIndex (state asking) < length (questions (state asking))"
    by (simp_all add: sample_defs script_defs)
  show ?thesis
    using one_record_per_question [of skipped "[BySubmit, ByTimeout, BySkip]"]
      one_record_per_question [of asking "[ByTimeout, BySubmit, BySkip]"] a b
    by simp
qed

subsection \<open>Score, streak and best streak\<close>

lemma tally_showResults [simp]: "tally (showResults w) = tally w"
  by (simp add: tally_def showResults_def Let_def)

lemma tally_endQuiz [simp]: "tally (endQuiz w) = tally w"
  by (simp add: endQuiz_def) (simp add: tally_def)

lemma tally_showQuestion [simp]: "tally (showQuestion i w) = tally w"
  by (simp add: showQuestion_def Let_def startTimer_def generateAnswers_def)
     (simp add: tally_def)

lemma tally_nextQuestion [simp]: "tally (nextQuestion w) = tally w"
  by (simp add: nextQuestion_def Let_def)

lemma tally_autoAdvance [simp]: "tally (autoAdvance w) = tally w"
  by (simp add: autoAdvance_def)

lemma tally_showError [simp]: "tally (showError t m w) = tally w"
  by (simp add: tally_def showError_def)

lemma tally_selectAnswer [simp]: "tally (selectAnswer a w) = tally w"
  by (simp add: tally_def selectAnswer_def)

lemma tally_uncaught [simp]: "tally (uncaught r) = tally (app_of r)"
  by (cases r) (simp_all add: uncaught_def)

lemma tally_reset [simp]: "tally (reset w) = (0, 0, 0, [])"
  by (simp add: reset_def) (simp add: tally_def)

lemma tally_advances [simp]: "tally (w\<lparr>advances := n\<rparr>) = tally w"
  by (simp add: tally_def)

lemma tally_move_refl [simp]: "tally_move fresh t t"
  by (simp add: tally_move_def split: prod.splits)

lemma tally_move_reset [simp]: "tally_move True t (0, 0, 0, [])"
  by (simp add: tally_move_def split: prod.splits)

lemma tally_move_recorded [simp]: "tally_move fresh t (recorded r t)"
  by (cases "isCorrect r") (auto simp: tally_move_def recorded_def split: prod.splits)

lemma tally_move_streak [simp]: "tally_move fresh (sc, st, best, answers) (sc, 0, best, answers)"
  by (simp add: tally_move_def)

lemma submitAnswer_undefined:
  assumes "\<not> isAnswered (state w)"
    and "\<not> currentQuestionIndex (state w) < length (questions (state w))"
  shows "tally (app_of (submitAnswer w)) =
           (if selected w = None
            then (score (state w), 0, bestStreak (state w), userAnswers (state w))
            else tally w)"
  using assms
  by (cases "selected w")
     (simp_all add: submitAnswer_def Let_def recordQuestionTime_def resetStreak_def tally_def)

lemma skipQuestion_undefined:
  assumes "\<not> isAnswered (state w)"
    and "\<not> currentQuestionIndex (state w) < length (questions (state w))"
  shows "tally (app_of (skipQuestion w)) =
           (score (state w), 0, bestStreak (state w), userAnswers (state w))"
  using assms by (simp add: skipQuestion_def Let_def resetStreak_def tally_def)

lemma tally_submitAnswer: "tally_move fresh (tally w) (tally (app_of (submitAnswer w)))"
proof (cases "isAnswered (state w)")
  case True
  then show ?thesis by (simp add: answered_noop)
next
  case unanswered: False
  show ?thesis
  proof (cases "currentQuestionIndex (state w) < length (questions (state w))")
    case True
    from submitAnswer_open [OF unanswered True] show ?thesis by auto
  next
    case False
    have "tally_move fresh (tally w)
        (score (state w), 0, bestStreak (state w), userAnswers (state w))"
      by (simp add: tally_def)
    then show ?thesis by (simp add: submitAnswer_undefined [OF unanswered False])
  qed
qed

lemma tally_skipQuestion: "tally_move fresh (tally w) (tally (app_of (skipQuestion w)))"
proof (cases "isAnswered (state w)")
  case True
  then show ?thesis by (simp add: answered_noop)
next
  case unanswered: False
  show ?thesis
  proof (cases "currentQuestionIndex (state w) < length (questions (state w))")
    case True
    from skipQuestion_open [OF unanswered True] show ?thesis by auto
  next
    case False
    have "tally_move fresh (tally w)
        (score (state w), 0, bestStreak (state w), userAnswers (state w))"
      by (simp add: tally_def)
    then show ?thesis by (simp add: skipQuestion_undefined [OF unanswered False])
  qed
qed

lemma tally_handleTimeUp: "tally_move fresh (tally w) (tally (app_of (handleTimeUp w)))"
proof (cases "isAnswered (state w)")
  case True
  then show ?thesis by (simp add: handleTimeUp_def)
next
  case False
  have "tally (app_of (handleTimeUp w)) = tally (app_of (submitAnswer (clearTimer w)))"
    using False by (simp add: handleTimeUp_def split: outcome.splits)
  with tally_submitAnswer [of fresh "clearTimer w"] show ?thesis by simp
qed

lemma tally_timerTick: "tally_move fresh (tally w) (tally (app_of (timerTick w)))"
proof -
  let ?w1 = "w\<lparr>state := (state w)\<lparr>timeLeft := js_sub (timeLeft (state w)) (Fin 1)\<rparr>\<rparr>"
  have "tally ?w1 = tally w" by (simp add: tally_def)
  with tally_handleTimeUp [of fresh ?w1] show ?thesis
    by (simp add: timerTick_def Let_def)
qed

lemma fst_validateSettings: "fst (validateSettings w) = in_range (settings (state w))"
  by (simp add: validateSettings_def in_range_def Let_def)

lemma snd_validateSettings:
  "snd (validateSettings w) =
     (if in_range (settings (state w)) then w
      else showError ''Invalid Settings''
             (if js_lt (numQuestions (settings (state w))) (Fin 1)
                 \<or> js_gt (numQuestions (settings (state w))) (Fin 50)
              then ''Number of questions must be between 1 and 50''
              else ''Time per question must be between 5 and 300 seconds'') w)"
  by (simp add: validateSettings_def in_range_def Let_def)

lemma settings_entered: "settings (state (saveSettings (collectSettings form w))) = form"
  by (simp add: saveSettings_def collectSettings_def)

lemma tally_entered: "tally (saveSettings (collectSettings form w)) = tally w"
  by (simp add: saveSettings_def collectSettings_def tally_def)

text \<open>The three ways \<^verbatim>\<open>startQuiz\<close> ends.\<close>

lemma startQuiz_invalid:
  assumes "\<not> in_range form"
  shows "startQuiz form fetched w
           = snd (validateSettings (saveSettings (collectSettings form w)))"
proof -
  let ?w2 = "saveSettings (collectSettings form w)"
  obtain b w3 where v: "validateSettings ?w2 = (b, w3)"
    by (cases "validateSettings ?w2")
  with assms fst_validateSettings [of ?w2] have "\<not> b"
    by (simp add: settings_entered)
  with v show ?thesis by (simp add: startQuiz_def Let_def)
qed

lemma startQuiz_valid:
  assumes "in_range form"
  shows "startQuiz form fetched w =
    (let w3 = saveSettings (collectSettings form w)
     in case fetched of
          FetchFailed msg \<Rightarrow> showError ''Failed to Start Quiz'' msg w3
        | FetchOk qs \<Rightarrow>
            let w4 = w3\<lparr>state := (state w3)\<lparr>questions := qs\<rparr>\<rparr>
            in if length qs = 0
               then showError ''Failed to Start Quiz''
                      ''No questions received from the server'' w4
               else
                 let w5 = reset w4;
                     w6 = w5\<lparr>state := (state w5)\<lparr>isQuizActive := True,
                            startTime := Some (now w5)\<rparr>\<rparr>;
                     w7 = w6\<lparr>screen := QuizScreen\<rparr>
                 in showQuestion 0 w7)"
proof -
  let ?w2 = "saveSettings (collectSettings form w)"
  from assms have "validateSettings ?w2 = (True, ?w2)"
    using fst_validateSettings [of ?w2] snd_validateSettings [of ?w2]
    by (cases "validateSettings ?w2") (simp add: settings_entered)
  then show ?thesis by (simp add: startQuiz_def Let_def)
qed

lemma tally_started:
  assumes "in_range form" "qs \<noteq> []"
  shows "tally (startQuiz form (FetchOk qs) w) = (0, 0, 0, [])"
proof -
  have "tally (v\<lparr>state := (state v)\<lparr>isQuizActive := True, startTime := t\<rparr>,
      screen := QuizScreen\<rparr>) = tally v" for v t
    by (simp add: tally_def)
  then show ?thesis using assms(2)
    by (simp add: startQuiz_valid [OF assms(1)] Let_def)
qed

lemma tally_startQuiz: "tally_move True (tally w) (tally (startQuiz form fetched w))"
proof (cases "in_range form")
  case False
  then show ?thesis
    by (simp add: startQuiz_invalid snd_validateSettings settings_entered tally_entered)
next
  case True
  show ?thesis
  proof (cases fetched)
    case (FetchFailed msg)
    then show ?thesis by (simp add: startQuiz_valid [OF True] tally_entered)
  next
    case (FetchOk qs)
    have "tally (v\<lparr>state := (state v)\<lparr>questions := qs\<rparr>\<rparr>) = tally v" for v
      by (simp add: tally_def)
    with FetchOk tally_started [OF True, of qs w] show ?thesis
      by (cases "qs = []") (simp_all add: startQuiz_valid [OF True] tally_entered Let_def)
  qed
qed

lemma tally_quit [simp]: "tally (quitQuiz w) = (0, 0, 0, [])" "tally (restartQuiz w) = (0, 0, 0, [])"
  using tally_reset [of w] by (simp_all add: quitQuiz_def restartQuiz_def tally_def)

lemma tally_step_any: "tally_move True (tally w) (tally (step e w))"
  by (cases e)
     (simp_all add: tally_startQuiz tally_submitAnswer tally_skipQuestion tally_timerTick)

lemma tally_step_session: "in_session e \<Longrightarrow> tally_move False (tally w) (tally (step e w))"
  by (cases e)
     (simp_all add: tally_submitAnswer tally_skipQuestion tally_timerTick)

lemma tally_move_score:
  assumes "tally_move fresh t t'" "fst t = length (filter isCorrect (snd (snd (snd t))))"
  shows "fst t' = length (filter isCorrect (snd (snd (snd t'))))"
  using assms by (auto simp: tally_move_def split: prod.splits)

lemma score_counts_step:
  assumes "score (state w) = correct_answers (state w)"
  shows "score (state (step e w)) = correct_answers (state (step e w))"
  using tally_move_score [OF tally_step_any [of w e]] assms
  by (simp add: tally_def correct_answers_def)

lemma score_counts_run:
  "score (state w) = correct_answers (state w) \<Longrightarrow>
   score (state (run es w)) = correct_answers (state (run es w))"
  by (induction es arbitrary: w) (simp_all add: score_counts_step)

lemma score_counts_new:
  "score (state (new_QuizApp rnd clock html saved works))
     = correct_answers (state (new_QuizApp rnd clock html saved works))"
  by (simp add: new_QuizApp_def new_QuizState_def correct_answers_def split: option.splits)

lemma tally_move_best:
  assumes "tally_move False t t'" "fst (snd t) \<le> fst (snd (snd t))"
  shows "fst (snd t') \<le> fst (snd (snd t'))
         \<and> fst (snd (snd t')) = max (fst (snd (snd t))) (fst (snd t'))"
  using assms by (auto simp: tally_move_def split: prod.splits)

lemma best_step:
  assumes "in_session e" "streak (state w) \<le> bestStreak (state w)"
  shows "streak (state (step e w)) \<le> bestStreak (state (step e w))"
    and "bestStreak (state (step e w)) = max (bestStreak (state w)) (streak (state (step e w)))"
  using tally_move_best [OF tally_step_session [OF assms(1), of w]] assms(2)
  by (simp_all add: tally_def)

lemma best_monotone_step:
  assumes "in_session e"
  shows "bestStreak (state w) \<le> bestStreak (state (step e w))"
  using tally_step_session [OF assms, of w]
  by (auto simp: tally_move_def tally_def split: prod.splits)

lemma best_monotone_run:
  "list_all in_session es \<Longrightarrow> bestStreak (state w) \<le> bestStreak (state (run es w))"
proof (induction es arbitrary: w)
  case Nil
  then show ?case by simp
next
  case (Cons e es)
  then have "bestStreak (state w) \<le> bestStreak (state (step e w))"
    and "bestStreak (state (step e w)) \<le> bestStreak (state (run es (step e w)))"
    by (simp_all add: best_monotone_step)
  then show ?case by simp
qed

lemma streaks_seen_simps [simp]:
  "streaks_seen [] w = [streak (state w)]"
  "streaks_seen (e # es) w = streak (state w) # streaks_seen es (step e w)"
  by (simp_all add: streaks_seen_def)

lemma streaks_seen_nonempty [simp]: "streaks_seen es w \<noteq> []"
  by (cases es) simp_all

lemma hd_streaks_seen: "streak (state w) \<in> set (streaks_seen es w)"
  by (cases es) simp_all

lemma best_is_max_general:
  assumes "list_all in_session es" "streak (state w) \<le> bestStreak (state w)"
  shows "bestStreak (state (run es w)) = max (bestStreak (state w)) (Max (set (streaks_seen es w)))"
  using assms
proof (induction es arbitrary: w)
  case Nil
  then show ?case by (simp add: max_def)
next
  case (Cons e es)
  let ?w = "step e w"
  from Cons.prems have e: "in_session e" and es: "list_all in_session es" by simp_all
  note b = best_step [OF e Cons.prems(2)]
  have ne: "set (streaks_seen es ?w) \<noteq> {}" by simp
  have "streak (state ?w) \<le> Max (set (streaks_seen es ?w))"
    by (rule Max_ge) (simp_all add: hd_streaks_seen)
  moreover have "bestStreak (state (run es ?w))
      = max (bestStreak (state ?w)) (Max (set (streaks_seen es ?w)))"
    by (rule Cons.IH [OF es b(1)])
  moreover have "Max (set (streaks_seen (e # es) w))
      = max (streak (state w)) (Max (set (streaks_seen es ?w)))"
    using ne by (simp add: Max_insert)
  ultimately show ?case
    using b(2) Cons.prems(2) by (simp add: max_def)
qed

text \<open>
  Claim C2. In every application reached from a freshly loaded page, by whatever events,
  the score is the number of recorded answers that are correct. A resolution of an open
  question sets the streak to one more than it was when the record it creates is correct,
  and to 0 when it is not; the record is correct exactly when the resolution is not a skip
  and the selected answer is the correct one (so a wrong answer, no answer and a skip all
  reset the streak). From the start of a session on, the best streak is the largest streak
  any application of the session has shown, and no event of a session lowers it.
\<close>

theorem score_streak_best:
  "score (state (run es (new_QuizApp rnd clock html saved works)))
     = correct_answers (state (run es (new_QuizApp rnd clock html saved works)))
   \<and> (\<not> isAnswered (state w) \<and> currentQuestionIndex (state w) < length (questions (state w))
        \<longrightarrow> streak (state (resolve t w))
              = (if isCorrect (last (userAnswers (state (resolve t w))))
                 then streak (state w) + 1 else 0)
            \<and> (isCorrect (last (userAnswers (state (resolve t w))))
                 = (t \<noteq> BySkip \<and> selected w = Some (correct_answer
                      (questions (state w) ! currentQuestionIndex (state w))))))
   \<and> (in_range form \<and> qs \<noteq> [] \<and> list_all in_session es' \<longrightarrow>
        bestStreak (state (run es' (startQuiz form (FetchOk qs) v)))
          = Max (set (streaks_seen es' (startQuiz form (FetchOk qs) v))))
   \<and> (list_all in_session es' \<longrightarrow> bestStreak (state u) \<le> bestStreak (state (run es' u)))"
proof (intro conjI impI)
  show "score (state (run es (new_QuizApp rnd clock html saved works)))
     = correct_answers (state (run es (new_QuizApp rnd clock html saved works)))"
    by (rule score_counts_run [OF score_counts_new])
next
  assume a: "\<not> isAnswered (state w)
    \<and> currentQuestionIndex (state w) < length (questions (state w))"
  then have l: "last (userAnswers (state (resolve t w))) = created t w"
    by (simp add: resolve_open_fields(1))
  from a show "streak (state (resolve t w))
      = (if isCorrect (last (userAnswers (state (resolve t w)))) then streak (state w) + 1 else 0)"
    unfolding l by (simp add: resolve_open_fields(2))
  show "isCorrect (last (userAnswers (state (resolve t w))))
      = (t \<noteq> BySkip \<and> selected w = Some (correct_answer
                      (questions (state w) ! currentQuestionIndex (state w))))"
    unfolding l by (cases t) (auto simp: submitted_def Let_def split: option.splits)
next
  assume a: "in_range form \<and> qs \<noteq> [] \<and> list_all in_session es'"
  let ?v = "startQuiz form (FetchOk qs) v"
  from a have t: "tally ?v = (0, 0, 0, [])" by (simp add: tally_started)
  then have z: "streak (state ?v) = 0" "bestStreak (state ?v) = 0"
    by (simp_all add: tally_def)
  from a z best_is_max_general [of es' ?v]
  show "bestStreak (state (run es' ?v)) = Max (set (streaks_seen es' ?v))"
    by simp
next
  assume "list_all in_session es'"
  then show "bestStreak (state u) \<le> bestStreak (state (run es' u))"
    by (rule best_monotone_run)
qed

theorem score_streak_best_witness:
  "\<not> isAnswered (state asking)
   \<and> currentQuestionIndex (state asking) < length (questions (state asking))
   \<and> streak (state (resolve BySubmit asking))
        = (if isCorrect (last (userAnswers (state (resolve BySubmit asking))))
           then streak (state asking) + 1 else 0)
   \<and> in_range five_seconds
   \<and> list_all in_session [ClickAnswer 1, ClickSubmit, ClickNext, ClickSkip]
   \<and> bestStreak (state (run [ClickAnswer 1, ClickSubmit, ClickNext, ClickSkip]
          (startQuiz five_seconds (FetchOk [paris, paris, paris]) loaded)))
        = Max (set (streaks_seen [ClickAnswer 1, ClickSubmit, ClickNext, ClickSkip]
            (startQuiz five_seconds (FetchOk [paris, paris, paris]) loaded)))
   \<and> bestStreak (state asking)
        \<le> bestStreak (state (run [ClickAnswer 1, ClickSubmit, ClickNext, ClickSkip] asking))"
proof -
  have a: "\<not> isAnswered (state asking)"
    "currentQuestionIndex (state asking) < length (questions (state asking))"
    by (simp_all add: sample_defs script_defs)
  have b: "in_range five_seconds"
    by (simp add: in_range_def five_seconds_def js_gt_def)
  have c: "list_all in_session [ClickAnswer 1, ClickSubmit, ClickNext, ClickSkip]"
    by simp
  have d: "[paris, paris, paris] \<noteq> []"
    by simp
  show ?thesis
    using score_streak_best [of "[]" "\<lambda>k. 1 / 2" 1000 shown None True asking BySubmit
        five_seconds
        "[paris, paris, paris]" "[ClickAnswer 1, ClickSubmit, ClickNext, ClickSkip]" loaded asking]
      a b c d
    by blast
qed

subsection \<open>The countdown and the time spent\<close>

lemma timeSpent_of_resolution:
  assumes "\<not> isAnswered (state w)"
    and "currentQuestionIndex (state w) < length (questions (state w))"
  shows "timeSpent (last (userAnswers (state (resolve t w)))) =
           (if t = BySkip then Fin 0
            else if selected w = None then timePerQuestion (settings (state w))
            else js_sub (timePerQuestion (settings (state w))) (timeLeft (state w)))"
proof -
  have l: "last (userAnswers (state (resolve t w))) = created t w"
    by (simp add: resolve_open_fields(1) [OF assms])
  show ?thesis
    unfolding l by (cases t) (simp_all add: submitted_def Let_def split: option.splits)
qed

lemma intervals_startTimer: "intervals (startTimer w) = intervals w @ [nextHandle w]"
  by (simp add: startTimer_def Let_def)

lemma intervals_clearTimer:
  "intervals (clearTimer w) =
     (case timer (state w) of None \<Rightarrow> intervals w
      | Some h \<Rightarrow> if h = 0 then intervals w else removeAll h (intervals w))"
  by (simp add: clearTimer_def clearInterval_def split: option.splits)

lemma intervals_submitAnswer:
  assumes "\<not> isAnswered (state w)"
  shows "intervals (app_of (submitAnswer w)) = intervals (clearTimer w)
         \<and> timer (state (app_of (submitAnswer w))) = timer (state (clearTimer w))"
proof (cases "selected w")
  case None
  with assms show ?thesis
    by (simp add: submitAnswer_def Let_def recordQuestionTime_def resetStreak_def
        intervals_clearTimer split: option.splits)
next
  case (Some a)
  with assms show ?thesis
    by (cases "a = correct_answer (questions (state w) ! currentQuestionIndex (state w))")
       (simp_all add: submitAnswer_def Let_def recordQuestionTime_def resetStreak_def
        incrementScore_def intervals_clearTimer split: option.splits)
qed

lemma intervals_skipQuestion:
  assumes "\<not> isAnswered (state w)"
  shows "intervals (app_of (skipQuestion w)) = intervals (clearTimer w)
         \<and> timer (state (app_of (skipQuestion w))) = timer (state (clearTimer w))"
  using assms
  by (simp add: skipQuestion_def Let_def resetStreak_def intervals_clearTimer
      split: option.splits)

lemma intervals_handleTimeUp:
  assumes "\<not> isAnswered (state w)"
  shows "intervals (app_of (handleTimeUp w)) = intervals (clearTimer w)
         \<and> timer (state (app_of (handleTimeUp w))) = timer (state (clearTimer w))"
proof -
  have "intervals (app_of (handleTimeUp w)) = intervals (app_of (submitAnswer (clearTimer w)))"
    and "state (app_of (handleTimeUp w)) = state (app_of (submitAnswer (clearTimer w)))"
    using assms by (simp_all add: handleTimeUp_def split: outcome.splits)
  moreover have "\<not> isAnswered (state (clearTimer w))" using assms by simp
  ultimately show ?thesis
    using intervals_submitAnswer [of "clearTimer w"]
    by (simp add: intervals_clearTimer split: option.splits)
qed

text \<open>
  A resolution and a quit cancel the countdown whose handle the state holds; starting a
  countdown cancels none.
\<close>

lemma resolution_cancels_timer:
  assumes "\<not> isAnswered (state w)" "timer (state w) = Some h" "h \<noteq> 0"
  shows "h \<notin> set (intervals (resolve t w))" "timer (state (resolve t w)) = None"
  using assms intervals_submitAnswer [of w] intervals_handleTimeUp [of w]
    intervals_skipQuestion [of w]
  by (cases t; simp add: intervals_clearTimer)+

lemma quit_cancels_timer:
  assumes "timer (state w) = Some h" "h \<noteq> 0"
  shows "h \<notin> set (intervals (quitQuiz w))" "timer (state (quitQuiz w)) = None"
  using assms by (simp_all add: quitQuiz_def reset_def intervals_clearTimer)

text \<open>
  Claim C6, which the script does not keep. The claim: a record created by a submit or a
  timeout has \<open>timeSpent = timePerQuestion - timeLeft\<close>, also when no answer was
  selected. With an answer selected it has (\<open>timeSpent_of_resolution\<close>). With none
  selected the record gets \<open>timePerQuestion\<close>, whatever time is left: Ctrl+Enter eight
  seconds into a question of twenty, nothing selected, records 20 seconds spent with 12
  left, while \<^verbatim>\<open>recordQuestionTime\<close> in the same call records 8.
\<close>

theorem unanswered_submit_records_full_time:
  "map (\<lambda>r. (userAnswer r, timeSpent r)) (userAnswers (state (run early_enter loaded)))
     = [(None, Fin 20)]
   \<and> timePerQuestion (settings (state (run early_enter loaded))) = Fin 20
   \<and> timeLeft (state (run early_enter loaded)) = Fin 12
   \<and> questionTimes (state (run early_enter loaded)) = [Fin 8]"
  by code_simp

text \<open>
  Claim C3, which the script does not keep. The claim: two countdowns are never live at
  once, a new countdown cancels the one before, and the auto-advance that a timeout
  schedules does not start a second countdown when the user has moved on meanwhile.
  A resolution and a quit do cancel the countdown (\<open>resolution_cancels_timer\<close>,
  \<open>quit_cancels_timer\<close>), but \<^verbatim>\<open>startTimer\<close> cancels nothing
  (\<open>intervals_startTimer\<close>): after the timer of the first question has run out and the
  user has clicked Next, one countdown (handle 2) is live and one auto-advance is pending;
  when that runs, the third question is shown and a second countdown (handle 3) is started
  next to the first, whose handle the state no longer holds.
\<close>

theorem second_countdown_left_running:
  "intervals (run overrun loaded) = [2]
   \<and> advances (run overrun loaded) = 1
   \<and> intervals (run (overrun @ [TimeoutFires]) loaded) = [2, 3]
   \<and> timer (state (run (overrun @ [TimeoutFires]) loaded)) = Some 3"
  by code_simp

text \<open>What \<^verbatim>\<open>nextQuestion\<close> does, answered or not.\<close>

lemma nextQuestion_moves:
  assumes "currentQuestionIndex (state w) + 1 < length (questions (state w))"
  shows "currentQuestionIndex (state (nextQuestion w)) = currentQuestionIndex (state w) + 1"
    and "\<not> isAnswered (state (nextQuestion w))"
    and "screen (nextQuestion w) = screen w"
  using assms
  by (simp_all add: nextQuestion_def showQuestion_def startTimer_def generateAnswers_def
      Let_def)

lemma nextQuestion_completes:
  assumes "\<not> currentQuestionIndex (state w) + 1 < length (questions (state w))"
  shows "screen (nextQuestion w) = EndScreen"
    and "\<not> isQuizActive (state (nextQuestion w))"
    and "results (nextQuestion w) \<noteq> None"
    and "timer (state w) = Some h \<Longrightarrow> h \<noteq> 0 \<Longrightarrow> h \<notin> set (intervals (nextQuestion w))"
  using assms
  by (simp_all add: nextQuestion_def endQuiz_def showResults_def Let_def
      intervals_clearTimer)

text \<open>
  Claim C4, which the script does not keep. The claim: \<^verbatim>\<open>nextQuestion\<close> does nothing
  unless the current question is answered, and otherwise moves to the next question, or
  to the results after the last one. It moves on as the claim says
  (\<open>nextQuestion_moves\<close>, \<open>nextQuestion_completes\<close>), but it has no test of
  \<open>isAnswered\<close>: called while the first question is open it shows the second, and no
  answer is recorded for the first.
  The pending auto-advance of the run above calls it while the second question is open:
  the third question is shown and the second never gets a record.
\<close>

theorem nextQuestion_leaves_open_question:
  "\<not> isAnswered (state asking)
   \<and> currentQuestionIndex (state asking) = 0
   \<and> currentQuestionIndex (state (nextQuestion asking)) = 1
   \<and> userAnswers (state (nextQuestion asking)) = []
   \<and> \<not> isAnswered (state (run overrun loaded))
   \<and> currentQuestionIndex (state (run overrun loaded)) = 1
   \<and> currentQuestionIndex (state (step TimeoutFires (run overrun loaded))) = 2
   \<and> length (userAnswers (state (step TimeoutFires (run overrun loaded)))) = 1"
  by code_simp

subsection \<open>Starting a quiz\<close>

lemma entered_fields:
  "state (saveSettings (collectSettings form w)) = (state w)\<lparr>settings := form\<rparr>"
  "intervals (saveSettings (collectSettings form w)) = intervals w"
  "advances (saveSettings (collectSettings form w)) = advances w"
  "screen (saveSettings (collectSettings form w)) = screen w"
  "results (saveSettings (collectSettings form w)) = results w"
  "answerElements (saveSettings (collectSettings form w)) = answerElements w"
  "selected (saveSettings (collectSettings form w)) = selected w"
  "storage (saveSettings (collectSettings form w)) = (if storageWorks w then Some form else storage w)"
  by (simp_all add: saveSettings_def collectSettings_def)

text \<open>
  Claim C5 as it holds. When the start of a quiz fails (settings out of range, an error
  from the fetch, or an empty list of questions) the error dialog shows the failure and
  no session is started: apart from \<open>settings\<close>, which holds the settings entered, and
  \<open>questions\<close>, every field of the state is as before, no countdown is started, and the
  screen, the answers shown and the results are as before. When the settings are out of
  range or the fetch fails, \<open>questions\<close> is as before as well.
\<close>

theorem failed_start_keeps_session:
  assumes "\<not> in_range form \<or> fetched = FetchFailed msg \<or> fetched = FetchOk []"
  shows "errorModal (startQuiz form fetched w) =
           Some (if in_range form then ''Failed to Start Quiz'' else ''Invalid Settings'',
                 if js_lt (numQuestions form) (Fin 1) \<or> js_gt (numQuestions form) (Fin 50)
                 then ''Number of questions must be between 1 and 50''
                 else if \<not> in_range form
                 then ''Time per question must be between 5 and 300 seconds''
                 else if fetched = FetchFailed msg then msg
                 else ''No questions received from the server'')
         \<and> (state (startQuiz form fetched w))\<lparr>questions := []\<rparr>
             = (state w)\<lparr>settings := form, questions := []\<rparr>
         \<and> (\<not> in_range form \<or> fetched = FetchFailed msg
              \<longrightarrow> questions (state (startQuiz form fetched w)) = questions (state w))
         \<and> intervals (startQuiz form fetched w) = intervals w
         \<and> advances (startQuiz form fetched w) = advances w
         \<and> screen (startQuiz form fetched w) = screen w
         \<and> results (startQuiz form fetched w) = results w
         \<and> answerElements (startQuiz form fetched w) = answerElements w
         \<and> selected (startQuiz form fetched w) = selected w"
proof (cases "in_range form")
  case False
  then show ?thesis
    by (auto simp: startQuiz_invalid snd_validateSettings settings_entered showError_def
        entered_fields in_range_def)
next
  case True
  with assms have "fetched = FetchFailed msg \<or> fetched = FetchOk []" by simp
  then show ?thesis
  proof
    assume "fetched = FetchFailed msg"
    with True show ?thesis
      by (simp add: startQuiz_valid showError_def entered_fields in_range_def)
  next
    assume "fetched = FetchOk []"
    with True show ?thesis
      by (simp add: startQuiz_valid showError_def entered_fields in_range_def Let_def)
  qed
qed

text \<open>
  The claim as stated, that no field of the state changes, fails: back on the start
  screen with three questions in the state, a start whose fetch returns no question
  leaves the list of questions empty.
\<close>

theorem failed_start_counterexample:
  "questions (state idle_again) = [paris, paris, paris]
   \<and> questions (state (startQuiz five_seconds (FetchOk []) idle_again)) = []
   \<and> state (startQuiz five_seconds (FetchOk []) idle_again) \<noteq> state idle_again"
proof -
  have a: "questions (state idle_again) = [paris, paris, paris]"
    by code_simp
  have b: "questions (state (startQuiz five_seconds (FetchOk []) idle_again)) = []"
    by code_simp
  from a b have "questions (state (startQuiz five_seconds (FetchOk []) idle_again))
      \<noteq> questions (state idle_again)"
    by simp
  then have "state (startQuiz five_seconds (FetchOk []) idle_again) \<noteq> state idle_again"
    by auto
  with a b show ?thesis by simp
qed

theorem failed_start_keeps_session_witness:
  "in_range five_seconds
   \<and> errorModal (startQuiz five_seconds (FetchOk []) idle_again)
       = Some (''Failed to Start Quiz'', ''No questions received from the server'')
   \<and> intervals (startQuiz five_seconds (FetchOk []) idle_again) = intervals idle_again
   \<and> screen (startQuiz five_seconds (FetchOk []) idle_again) = screen idle_again
   \<and> \<not> in_range too_many
   \<and> errorModal (startQuiz too_many (FetchOk [paris]) idle_again)
       = Some (''Invalid Settings'', ''Number of questions must be between 1 and 50'')
   \<and> questions (state (startQuiz too_many (FetchOk [paris]) idle_again))
       = questions (state idle_again)"
proof -
  have a: "in_range five_seconds" "\<not> in_range too_many"
    "js_gt (numQuestions too_many) (Fin 50)"
    "\<not> (js_lt (numQuestions five_seconds) (Fin 1) \<or> js_gt (numQuestions five_seconds) (Fin 50))"
    by (simp_all add: in_range_def five_seconds_def too_many_def js_gt_def)
  show ?thesis
    using failed_start_keeps_session [of five_seconds "FetchOk []" "[]" idle_again]
      failed_start_keeps_session [of too_many "FetchOk [paris]" "[]" idle_again] a
    by simp
qed

lemma storage_frames [simp]:
  "storage (showError t m w) = storage w"
  "storage (clearTimer w) = storage w"
  "storage (showResults w) = storage w"
  "storage (startTimer w) = storage w"
  "storage (generateAnswers q w) = storage w"
  by (simp_all add: showError_def clearTimer_def clearInterval_def showResults_def
      startTimer_def generateAnswers_def Let_def split: option.splits)

lemma storage_endQuiz [simp]: "storage (endQuiz w) = storage w"
  by (simp add: endQuiz_def)

lemma storage_showQuestion [simp]: "storage (showQuestion i w) = storage w"
  by (simp add: showQuestion_def Let_def)

lemma storage_reset [simp]: "storage (reset w) = storage w"
  by (simp add: reset_def)

lemma storage_startQuiz:
  "storage (startQuiz form fetched w) = (if storageWorks w then Some form else storage w)"
proof (cases "in_range form")
  case False
  then show ?thesis
    by (simp add: startQuiz_invalid snd_validateSettings settings_entered entered_fields)
next
  case True
  then show ?thesis
    by (cases fetched) (simp_all add: startQuiz_valid Let_def entered_fields)
qed

text \<open>
  What the validation does for numbers. With numbers in both fields,
  \<^verbatim>\<open>validateSettings\<close> fails exactly when the number of questions is below 1 or above 50
  or the time per question is below 5 or above 300. Every start attempt stores the
  settings entered, whether they are valid or not, wherever the browser's storage takes
  them (\<^verbatim>\<open>saveToStorage\<close> swallows a failure of the storage): \<^verbatim>\<open>saveSettings\<close> runs
  before \<^verbatim>\<open>validateSettings\<close>. When the validation fails the dialog names the field and
  its bounds, and no session is started: the state changes in \<open>settings\<close> only, no
  countdown is started and the screen stays.
\<close>

theorem settings_saved_then_validated:
  "(numQuestions (settings (state w)) = Fin n \<and> timePerQuestion (settings (state w)) = Fin t
      \<longrightarrow> (\<not> fst (validateSettings w)) = (n < 1 \<or> 50 < n \<or> t < 5 \<or> 300 < t))
   \<and> storage (startQuiz form fetched w) = (if storageWorks w then Some form else storage w)
   \<and> (numQuestions form = Fin n \<and> timePerQuestion form = Fin t
        \<and> (n < 1 \<or> 50 < n \<or> t < 5 \<or> 300 < t)
      \<longrightarrow> errorModal (startQuiz form fetched w) =
            Some (''Invalid Settings'',
                  if n < 1 \<or> 50 < n then ''Number of questions must be between 1 and 50''
                  else ''Time per question must be between 5 and 300 seconds'')
          \<and> state (startQuiz form fetched w) = (state w)\<lparr>settings := form\<rparr>
          \<and> intervals (startQuiz form fetched w) = intervals w
          \<and> screen (startQuiz form fetched w) = screen w)"
proof (intro conjI impI)
  assume "numQuestions (settings (state w)) = Fin n \<and> timePerQuestion (settings (state w)) = Fin t"
  then show "(\<not> fst (validateSettings w)) = (n < 1 \<or> 50 < n \<or> t < 5 \<or> 300 < t)"
    by (auto simp: fst_validateSettings in_range_def js_gt_def)
next
  show "storage (startQuiz form fetched w) = (if storageWorks w then Some form else storage w)"
    by (rule storage_startQuiz)
next
  assume a: "numQuestions form = Fin n \<and> timePerQuestion form = Fin t
        \<and> (n < 1 \<or> 50 < n \<or> t < 5 \<or> 300 < t)"
  then have out: "\<not> in_range form" by (auto simp: in_range_def js_gt_def)
  from a show "errorModal (startQuiz form fetched w) =
            Some (''Invalid Settings'',
                  if n < 1 \<or> 50 < n then ''Number of questions must be between 1 and 50''
                  else ''Time per question must be between 5 and 300 seconds'')"
    by (simp add: startQuiz_invalid [OF out] snd_validateSettings settings_entered out
        showError_def js_gt_def)
  show "state (startQuiz form fetched w) = (state w)\<lparr>settings := form\<rparr>"
    by (simp add: startQuiz_invalid [OF out] snd_validateSettings settings_entered out
        showError_def entered_fields)
  show "intervals (startQuiz form fetched w) = intervals w"
    by (simp add: startQuiz_invalid [OF out] snd_validateSettings settings_entered out
        showError_def entered_fields)
  show "screen (startQuiz form fetched w) = screen w"
    by (simp add: startQuiz_invalid [OF out] snd_validateSettings settings_entered out
        showError_def entered_fields)
qed

theorem settings_saved_then_validated_witness:
  "numQuestions (settings (state loaded)) = Fin 10
   \<and> timePerQuestion (settings (state loaded)) = Fin 20
   \<and> fst (validateSettings loaded)
   \<and> numQuestions too_many = Fin 51 \<and> timePerQuestion too_many = Fin 20
   \<and> storageWorks loaded
   \<and> storage (startQuiz too_many (FetchOk [paris]) loaded) = Some too_many
   \<and> errorModal (startQuiz too_many (FetchOk [paris]) loaded)
       = Some (''Invalid Settings'', ''Number of questions must be between 1 and 50'')
   \<and> state (startQuiz too_many (FetchOk [paris]) loaded) = (state loaded)\<lparr>settings := too_many\<rparr>"
proof -
  have a: "numQuestions (settings (state loaded)) = Fin 10"
    "timePerQuestion (settings (state loaded)) = Fin 20"
    "storageWorks loaded"
    by (simp_all add: loaded_def new_QuizApp_def new_QuizState_def)
  have b: "numQuestions too_many = Fin 51" "timePerQuestion too_many = Fin 20"
    by (simp_all add: too_many_def)
  show ?thesis
    using settings_saved_then_validated [of loaded 10 20 too_many "FetchOk [paris]"]
      settings_saved_then_validated [of loaded 51 20 too_many "FetchOk [paris]"] a b
    by simp
qed

text \<open>
  A field left empty is read by \<^verbatim>\<open>parseInt\<close> as \<^verbatim>\<open>NaN\<close>, for which the four
  comparisons of \<^verbatim>\<open>validateSettings\<close> are all false: the validation passes whatever
  the other field holds within its bounds.
\<close>

lemma validateSettings_NaN:
  "numQuestions (settings (state w)) = NaN \<Longrightarrow> timePerQuestion (settings (state w)) = NaN
   \<Longrightarrow> fst (validateSettings w)"
  by (simp add: fst_validateSettings in_range_def js_gt_def)

lemma validateSettings_no_time:
  "js_le (Fin 1) (numQuestions (settings (state w)))
   \<Longrightarrow> js_le (numQuestions (settings (state w))) (Fin 50)
   \<Longrightarrow> timePerQuestion (settings (state w)) = NaN
   \<Longrightarrow> fst (validateSettings w)"
  by (cases "numQuestions (settings (state w))")
     (simp_all add: fst_validateSettings in_range_def js_gt_def)

text \<open>
  Claim C9, which the script does not keep. A time per question that is no number is
  outside 5 to 300, and the validation is to fail for it. With ten questions asked for
  and the field of the time left empty the validation passes, no dialog is shown, and a
  session starts whose countdown is \<^verbatim>\<open>NaN\<close>: it stays \<^verbatim>\<open>NaN\<close> at every tick and the
  time never runs out. With both fields empty the validation passes as well. (The
  settings are stored before the validation, as the claim has it:
  \<open>settings_saved_then_validated\<close>.)
\<close>

theorem blank_fields_pass_validation:
  "numQuestions blank = NaN \<and> timePerQuestion blank = NaN
   \<and> fst (validateSettings (collectSettings blank loaded))
   \<and> numQuestions no_time = Fin 10 \<and> timePerQuestion no_time = NaN
   \<and> fst (validateSettings (collectSettings no_time loaded))
   \<and> errorModal (run [ClickStart no_time (FetchOk [paris])] loaded) = None
   \<and> isQuizActive (state (run [ClickStart no_time (FetchOk [paris])] loaded))
   \<and> screen (run [ClickStart no_time (FetchOk [paris])] loaded) = QuizScreen
   \<and> intervals (run [ClickStart no_time (FetchOk [paris])] loaded) = [1]
   \<and> timeLeft (state (run [ClickStart no_time (FetchOk [paris]), IntervalFires 1,
        IntervalFires 1, IntervalFires 1] loaded)) = NaN
   \<and> \<not> isAnswered (state (run [ClickStart no_time (FetchOk [paris]), IntervalFires 1,
        IntervalFires 1, IntervalFires 1] loaded))
   \<and> userAnswers (state (run [ClickStart no_time (FetchOk [paris]), IntervalFires 1,
        IntervalFires 1, IntervalFires 1] loaded)) = []"
  by code_simp

subsection \<open>The nearest double\<close>

text \<open>
  \<open>floor_log2\<close> is the binary exponent, \<open>round_half_even\<close> is within one half of its
  argument, and so the nearest double of a normal number is within the relative error
  \<open>2 powi - 53\<close>. Integers and halves of integers below \<open>2 ^ 52\<close> in magnitude are doubles.
\<close>

lemma floor_log2_bounds:
  assumes "0 < r"
  shows "2 powi (floor_log2 r) \<le> r" and "r < 2 powi (floor_log2 r + 1)"
proof -
  obtain p q where pq: "quotient_of r = (p, q)" by force
  then have q: "0 < q" and r: "r = of_int p / of_int q"
    by (simp_all add: quotient_of_denom_pos quotient_of_div)
  with assms have p: "0 < p" by (simp add: zero_less_divide_iff)
  let ?bp = "bitlen p" and ?bq = "bitlen q"
  from bitlen_bounds [OF p] have "2 ^ nat (?bp - 1) \<le> p" "p < 2 ^ nat ?bp" by simp_all
  then have "(2::rat) ^ nat (?bp - 1) \<le> of_int p" "of_int p < (2::rat) ^ nat ?bp"
    by (metis of_int_le_iff of_int_numeral of_int_power, metis of_int_less_iff of_int_numeral of_int_power)
  moreover from p have "1 \<le> ?bp" by (simp add: bitlen_ge_iff_power)
  ultimately have P: "(2::rat) powi (?bp - 1) \<le> of_int p" "of_int p < (2::rat) powi ?bp"
    by (simp_all add: power_int_def)
  from bitlen_bounds [OF q] have "2 ^ nat (?bq - 1) \<le> q" "q < 2 ^ nat ?bq" by simp_all
  then have "(2::rat) ^ nat (?bq - 1) \<le> of_int q" "of_int q < (2::rat) ^ nat ?bq"
    by (metis of_int_le_iff of_int_numeral of_int_power, metis of_int_less_iff of_int_numeral of_int_power)
  moreover from q have "1 \<le> ?bq" by (simp add: bitlen_ge_iff_power)
  ultimately have Q: "(2::rat) powi (?bq - 1) \<le> of_int q" "of_int q < (2::rat) powi ?bq"
    by (simp_all add: power_int_def)
  let ?k = "?bp - ?bq"
  have low: "2 powi (?k - 1) \<le> r"
  proof -
    have "(2::rat) powi (?k - 1) = 2 powi ((?bp - 1) - ?bq)"
      by (simp add: algebra_simps)
    also have "\<dots> = 2 powi (?bp - 1) / 2 powi ?bq"
      by (rule power_int_diff) simp
    also have "\<dots> \<le> of_int p / of_int q"
      using P(1) Q(2) q p by (intro frac_le) simp_all
    finally show ?thesis by (simp add: r)
  qed
  have up: "r < 2 powi (?k + 1)"
  proof -
    have "of_int p / of_int q < (2::rat) powi ?bp / 2 powi (?bq - 1)"
      using P(2) Q(1) p by (intro frac_less) simp_all
    also have "\<dots> = 2 powi (?bp - (?bq - 1))"
      by (rule power_int_diff [symmetric]) simp
    also have "\<dots> = 2 powi (?k + 1)"
      by (simp add: algebra_simps)
    finally show ?thesis by (simp add: r)
  qed
  have e: "floor_log2 r = (if 2 powi ?k \<le> r then ?k else ?k - 1)"
    by (simp add: floor_log2_def pq)
  show "2 powi (floor_log2 r) \<le> r"
    using low by (simp add: e)
  show "r < 2 powi (floor_log2 r + 1)"
    using up by (simp add: e not_le)
qed

lemma round_half_even_error: "\<bar>of_int (round_half_even y) - y\<bar> \<le> 1 / 2"
proof -
  have "of_int \<lfloor>y\<rfloor> \<le> y" "y < of_int \<lfloor>y\<rfloor> + 1" by linarith+
  then show ?thesis
    by (auto simp: round_half_even_def Let_def)
qed

lemma round_half_even_of_int [simp]: "round_half_even (of_int k) = k"
  by (simp add: round_half_even_def)

lemma two_powi_less_cancel:
  assumes "(2::rat) powi m < 2 powi n"
  shows "m < n"
proof (rule ccontr)
  assume "\<not> m < n"
  then have "(2::rat) powi n \<le> 2 powi m" by (intro power_int_increasing) simp_all
  with assms show False by simp
qed

lemma no_overflow:
  assumes "\<bar>d\<bar> < (2::rat) ^ 1024"
  shows "\<not> 1024 < bitlen \<lfloor>\<bar>d\<bar>\<rfloor>"
proof -
  have "rat_of_int \<lfloor>\<bar>d\<bar>\<rfloor> \<le> \<bar>d\<bar>" by simp
  with assms have "rat_of_int \<lfloor>\<bar>d\<bar>\<rfloor> < of_int (2 ^ 1024)" by simp
  then have "\<lfloor>\<bar>d\<bar>\<rfloor> < 2 ^ 1024" by (simp only: of_int_less_iff)
  then have "bitlen \<lfloor>\<bar>d\<bar>\<rfloor> \<le> 1024" by (simp add: bitlen_le_iff_power)
  then show ?thesis by simp
qed

lemma to_double_error:
  assumes "2 powi (- 1022) \<le> \<bar>r\<bar>" "\<bar>r\<bar> < 2 ^ 1023"
  obtains d where "to_double r = Fin d" "\<bar>d - r\<bar> \<le> \<bar>r\<bar> * 2 powi (- 53)"
proof -
  have "(0::rat) < 2 powi (- 1022)" by simp
  with assms(1) have pos: "0 < \<bar>r\<bar>" by linarith
  then have r0: "r \<noteq> 0" by simp
  let ?e = "floor_log2 \<bar>r\<bar>"
  note b = floor_log2_bounds [OF pos]
  from assms(1) b(2) have "(2::rat) powi (- 1022) < 2 powi (?e + 1)" by simp
  then have "- 1022 < ?e + 1" by (rule two_powi_less_cancel)
  then have m: "max (?e - 52) (- 1074) = ?e - 52" by simp
  let ?u = "(2::rat) powi (?e - 52)"
  have u0: "0 < ?u" by simp
  have "?u = 2 powi ?e * 2 powi (- 52)"
    using power_int_add [of "2::rat" ?e "- 52"] by simp
  with b(1) have u: "?u \<le> \<bar>r\<bar> * 2 powi (- 52)"
    by (simp add: mult_right_mono)
  let ?d = "rat_of_int (round_half_even (r / ?u)) * ?u"
  have "?d - r = (rat_of_int (round_half_even (r / ?u)) - r / ?u) * ?u"
    using u0 by (simp add: algebra_simps)
  then have "\<bar>?d - r\<bar> = \<bar>rat_of_int (round_half_even (r / ?u)) - r / ?u\<bar> * ?u"
    using u0 by (simp add: abs_mult)
  also have "\<dots> \<le> 1 / 2 * ?u"
    using u0 round_half_even_error [of "r / ?u"] by (intro mult_right_mono) simp_all
  also have "\<dots> \<le> 1 / 2 * (\<bar>r\<bar> * 2 powi (- 52))"
    using u by simp
  also have "\<dots> = \<bar>r\<bar> * 2 powi (- 53)"
    using power_int_add [of "2::rat" "- 52" "- 1"] by simp
  finally have err: "\<bar>?d - r\<bar> \<le> \<bar>r\<bar> * 2 powi (- 53)" .
  have "(2::rat) powi (- 53) \<le> 2 powi 0"
    by (intro power_int_increasing) simp_all
  then have "\<bar>r\<bar> * 2 powi (- 53) \<le> \<bar>r\<bar> * 1"
    by (intro mult_left_mono) simp_all
  then have "\<bar>r\<bar> * 2 powi (- 53) \<le> \<bar>r\<bar>" by simp
  with err have "\<bar>?d\<bar> \<le> 2 * \<bar>r\<bar>" by linarith
  with assms(2) have "\<bar>?d\<bar> < 2 ^ 1024" by simp
  then have "\<not> 1024 < bitlen \<lfloor>\<bar>?d\<bar>\<rfloor>" by (rule no_overflow)
  then have "to_double r = Fin ?d"
    using r0 by (simp add: to_double_def Let_def m)
  then show ?thesis using err by (rule that)
qed

lemma to_double_half_integer:
  assumes "\<bar>rat_of_int k / 2\<bar> < 2 ^ 52"
  shows "to_double (of_int k / 2) = Fin (of_int k / 2)"
proof (cases "k = 0")
  case True
  then show ?thesis by (simp add: to_double_def)
next
  case False
  let ?r = "rat_of_int k / 2"
  from False have pos: "0 < \<bar>?r\<bar>" by simp
  let ?e = "floor_log2 \<bar>?r\<bar>"
  from floor_log2_bounds(1) [OF pos] assms have "(2::rat) powi ?e < 2 powi 52" by simp
  then have "?e < 52" by (rule two_powi_less_cancel)
  let ?m = "max (?e - 52) (- 1074)"
  from \<open>?e < 52\<close> have mle: "?m \<le> - 1" by simp
  define j where "j = nat (- 1 - ?m)"
  with mle have eq: "?m = - 1 - int j" by simp
  have "(2::rat) powi (- 1 - int j) = 1 / (2 * 2 ^ j)"
    by (simp add: power_int_def nat_add_distrib power_one_over field_simps)
  then have u: "(2::rat) powi ?m = 1 / (2 * 2 ^ j)" by (simp only: eq)
  have q: "?r / 2 powi ?m = rat_of_int (k * 2 ^ j)"
    unfolding u by simp
  have d: "rat_of_int (round_half_even (?r / 2 powi ?m)) * 2 powi ?m = ?r"
    unfolding q round_half_even_of_int unfolding u by simp
  from assms have "\<bar>?r\<bar> < 2 ^ 1024"
    by (rule less_trans) simp
  then have novf: "\<not> 1024 < bitlen \<lfloor>\<bar>?r\<bar>\<rfloor>" by (rule no_overflow)
  show ?thesis
    unfolding to_double_def Let_def d using False novf by simp
qed

lemma to_double_integer:
  assumes "\<bar>rat_of_int k\<bar> < 2 ^ 52"
  shows "to_double (of_int k) = Fin (of_int k)"
proof -
  from assms have "\<bar>rat_of_int (2 * k) / 2\<bar> < 2 ^ 52" by simp
  then have "to_double (of_int (2 * k) / 2) = Fin (of_int (2 * k) / 2)"
    by (rule to_double_half_integer)
  then show ?thesis by simp
qed

text \<open>
  \<^verbatim>\<open>Math.round\<close> of a quotient of two integers below \<open>2 ^ 52\<close> is the same whether the
  quotient is rounded to a double first or not: the quotient is a half of an integer,
  which is a double, or it is further from every half of an integer than the rounding
  moves it.
\<close>

lemma average_rounding:
  fixes t n :: int
  assumes "0 < n" "n < 2 ^ 52" "\<bar>t\<bar> < 2 ^ 52"
  shows "Math_round (rounded (js_div (Fin (of_int t)) (Fin (of_int n))))
           = Math_round (js_div (Fin (of_int t)) (Fin (of_int n)))"
proof (cases "t = 0")
  case True
  then show ?thesis using assms(1) by (simp add: to_double_def)
next
  case False
  let ?N = "rat_of_int n" and ?T = "rat_of_int t"
  let ?x = "?T / ?N"
  from assms(1) have N: "1 \<le> ?N" "0 < ?N" by simp_all
  from assms(2) have "?N < of_int (2 ^ 52)" by (simp only: of_int_less_iff)
  then have N52: "?N < 2 ^ 52" by simp
  from assms(3) have "\<bar>?T\<bar> < of_int (2 ^ 52)"
    by (metis of_int_abs of_int_less_iff)
  then have T52: "\<bar>?T\<bar> < 2 ^ 52" by simp
  from False have "1 \<le> \<bar>t\<bar>" by simp
  then have T1: "1 \<le> \<bar>?T\<bar>" by (metis of_int_1_le_iff of_int_abs)
  have ax: "\<bar>?x\<bar> = \<bar>?T\<bar> / ?N" using N by (simp add: abs_divide)
  have "1 / ?N \<le> \<bar>?x\<bar>" unfolding ax using T1 N by (simp add: divide_right_mono)
  moreover have "1 / 2 ^ 52 < 1 / ?N" using N52 N by (simp add: frac_less2)
  moreover have "(2::rat) powi (- 1022) \<le> 1 / 2 ^ 52"
  proof -
    have "(2::rat) powi (- 1022) \<le> 2 powi (- 52)"
      by (intro power_int_increasing) simp_all
    also have "\<dots> = 1 / 2 ^ 52"
      using power_int_minus_divide [of "2::rat" 52] by simp
    finally show ?thesis .
  qed
  ultimately have lo: "2 powi (- 1022) \<le> \<bar>?x\<bar>" by linarith
  have "\<bar>?T\<bar> / ?N \<le> \<bar>?T\<bar> / 1"
    using N by (intro divide_left_mono) simp_all
  then have "\<bar>?x\<bar> \<le> \<bar>?T\<bar>" unfolding ax by simp
  with T52 have x52: "\<bar>?x\<bar> < 2 ^ 52" by linarith
  then have hi: "\<bar>?x\<bar> < 2 ^ 1023" by (rule less_trans) simp
  from to_double_error [OF lo hi] obtain d where
    d: "to_double ?x = Fin d" and e0: "\<bar>d - ?x\<bar> \<le> \<bar>?x\<bar> * 2 powi (- 53)"
    by blast
  have "\<bar>?T\<bar> / ?N < 2 ^ 52 / ?N"
    using T52 N(2) by (rule divide_strict_right_mono)
  then have "\<bar>?x\<bar> * 2 powi (- 53) < 2 ^ 52 / ?N * 2 powi (- 53)"
    unfolding ax by (rule mult_strict_right_mono) simp
  also have "\<dots> = 1 / (2 * ?N)"
  proof -
    have "(2::rat) powi (- 53) * 2 ^ 52 = 1 / 2"
      using power_int_add [of "2::rat" "- 53" 52] by simp
    then show ?thesis by (simp add: field_simps)
  qed
  finally have err: "\<bar>d - ?x\<bar> < 1 / (2 * ?N)" using e0 by linarith
  define M where "M = \<lfloor>?x + 1 / 2\<rfloor>"
  have fl: "of_int M \<le> ?x + 1 / 2" "?x + 1 / 2 < of_int M + 1"
    unfolding M_def by linarith+
  have up: "d + 1 / 2 < of_int M + 1"
  proof -
    from fl(2) N have "?T * 2 + ?N < (of_int M + 1) * 2 * ?N"
      by (simp add: field_simps)
    then have "rat_of_int (t * 2 + n) < of_int ((M + 1) * 2 * n)" by simp
    then have "t * 2 + n < (M + 1) * 2 * n" by (simp only: of_int_less_iff)
    then have "t * 2 + n + 1 \<le> (M + 1) * 2 * n" by simp
    then have "rat_of_int (t * 2 + n + 1) \<le> of_int ((M + 1) * 2 * n)"
      by (simp only: of_int_le_iff)
    then have "?T * 2 + ?N + 1 \<le> (of_int M + 1) * 2 * ?N" by simp
    then have "(?T * 2 + ?N + 1) / (2 * ?N) \<le> ((of_int M + 1) * 2 * ?N) / (2 * ?N)"
      using N by (intro divide_right_mono) simp_all
    moreover have "(?T * 2 + ?N + 1) / (2 * ?N) = ?x + 1 / 2 + 1 / (2 * ?N)"
      using N by (simp add: field_simps)
    moreover have "((of_int M + 1) * 2 * ?N) / (2 * ?N) = of_int M + 1"
      using N by simp
    ultimately have "?x + 1 / 2 + 1 / (2 * ?N) \<le> of_int M + 1" by simp
    with err show ?thesis by linarith
  qed
  have low: "of_int M \<le> d + 1 / 2"
  proof (cases "M * 2 * n = t * 2 + n")
    case True
    then have "rat_of_int (M * 2 * n) = of_int (t * 2 + n)" by simp
    then have "of_int M * 2 * ?N = ?T * 2 + ?N" by simp
    with N have x: "?x = of_int (2 * M - 1) / 2" by (simp add: field_simps)
    from x52 have "to_double ?x = Fin ?x"
      unfolding x by (rule to_double_half_integer)
    with d have "d = ?x" by simp
    with fl(1) show ?thesis by simp
  next
    case False
    from fl(1) N have "of_int M * 2 * ?N \<le> ?T * 2 + ?N"
      by (simp add: field_simps)
    then have "rat_of_int (M * 2 * n) \<le> of_int (t * 2 + n)" by simp
    then have "M * 2 * n \<le> t * 2 + n" by (simp only: of_int_le_iff)
    with False have "M * 2 * n + 1 \<le> t * 2 + n" by simp
    then have "rat_of_int (M * 2 * n + 1) \<le> of_int (t * 2 + n)"
      by (simp only: of_int_le_iff)
    then have "of_int M * 2 * ?N + 1 \<le> ?T * 2 + ?N" by simp
    then have "(of_int M * 2 * ?N + 1) / (2 * ?N) \<le> (?T * 2 + ?N) / (2 * ?N)"
      using N by (intro divide_right_mono) simp_all
    moreover have "(of_int M * 2 * ?N + 1) / (2 * ?N) = of_int M + 1 / (2 * ?N)"
      using N by (simp add: field_simps)
    moreover have "(?T * 2 + ?N) / (2 * ?N) = ?x + 1 / 2"
      using N by (simp add: field_simps)
    ultimately have "of_int M + 1 / (2 * ?N) \<le> ?x + 1 / 2" by simp
    with err show ?thesis by linarith
  qed
  from low up have "\<lfloor>d + 1 / 2\<rfloor> = M" by (rule floor_unique)
  then show ?thesis using assms(1) by (simp add: d M_def)
qed

text \<open>
  The double \<^verbatim>\<open>(s / n) * 100\<close> of two counters below \<open>2 ^ 40\<close> is within the relative
  error \<open>2 powi - 51\<close> of the exact percentage, which is either at a threshold of the
  table, where the double is the threshold itself, or at least \<open>1 / n\<close> away from it. So
  the double reaches a threshold exactly when the exact percentage does.
\<close>

lemma exact_thresholds:
  "rounded (js_mul (to_double (3 / 5)) (Fin 100)) = Fin 60"
  "rounded (js_mul (to_double (7 / 10)) (Fin 100)) = Fin 70"
  "rounded (js_mul (to_double (4 / 5)) (Fin 100)) = Fin 80"
  "rounded (js_mul (to_double (9 / 10)) (Fin 100)) = Fin 90"
  by code_simp+

lemma percentage_error:
  assumes "2 powi (- 1000) \<le> x" "x < 2 ^ 1000"
  obtains q where "rounded (js_mul (to_double x) (Fin 100)) = Fin q"
    and "\<bar>q - 100 * x\<bar> \<le> 100 * x * 2 powi (- 51)"
proof -
  let ?e = "(2::rat) powi (- 53)"
  have "(0::rat) < 2 powi (- 1000)" by simp
  with assms(1) have x0: "0 < x" by linarith
  have e: "0 < ?e" "?e \<le> 1 / 2"
  proof -
    show "0 < ?e" by simp
    have "?e \<le> 2 powi (- 1)" by (intro power_int_increasing) simp_all
    then show "?e \<le> 1 / 2" by simp
  qed
  have "(2::rat) powi (- 1022) \<le> 2 powi (- 1000)"
    by (intro power_int_increasing) simp_all
  with assms(1) x0 have lo: "2 powi (- 1022) \<le> \<bar>x\<bar>" by simp
  have "(2::rat) ^ 1000 < 2 ^ 1023" by simp
  with assms(2) x0 have hi: "\<bar>x\<bar> < 2 ^ 1023" by simp
  from to_double_error [OF lo hi] x0 obtain d where
    d: "to_double x = Fin d" and de: "\<bar>d - x\<bar> \<le> x * ?e"
    by auto
  have xe: "x * ?e \<le> x * (1 / 2)" using e(2) x0 by (intro mult_left_mono) simp_all
  with de have d1: "x / 2 \<le> d" "d \<le> 2 * x" by linarith+
  let ?y = "d * 100"
  from d1 x0 have y0: "0 < ?y" by simp
  have "(2::rat) powi (- 1022) \<le> 2 powi (- 1000) * 50"
  proof -
    have "(2::rat) powi (- 1022) \<le> 2 powi (- 1000) * 1" using \<open>(2::rat) powi (- 1022) \<le> 2 powi (- 1000)\<close> by simp
    also have "\<dots> \<le> 2 powi (- 1000) * 50" by (intro mult_left_mono) simp_all
    finally show ?thesis .
  qed
  also have "\<dots> \<le> x * 50" using assms(1) by (intro mult_right_mono) simp_all
  also have "\<dots> \<le> ?y" using d1(1) by simp
  finally have ylo: "2 powi (- 1022) \<le> \<bar>?y\<bar>" using y0 by simp
  have "?y \<le> x * 200" using d1(2) by simp
  also have "\<dots> < 2 ^ 1000 * 200" using assms(2) by (intro mult_strict_right_mono) simp_all
  also have "\<dots> \<le> 2 ^ 1000 * (2 ^ 23 :: rat)" by (intro mult_left_mono) simp_all
  also have "\<dots> = 2 ^ 1023" by (simp only: power_add [symmetric]) simp
  finally have yhi: "\<bar>?y\<bar> < 2 ^ 1023" using y0 by simp
  from to_double_error [OF ylo yhi] y0 obtain q where
    q: "to_double ?y = Fin q" and qe: "\<bar>q - ?y\<bar> \<le> ?y * ?e"
    by auto
  have r: "rounded (js_mul (to_double x) (Fin 100)) = Fin q"
    by (simp add: d q)
  have "?y * ?e \<le> (x * 200) * ?e" using \<open>?y \<le> x * 200\<close> e(1) by (intro mult_right_mono) simp_all
  with qe have 1: "\<bar>q - ?y\<bar> \<le> 200 * (x * ?e)" by simp
  from de have "d - x \<le> x * ?e" "x - d \<le> x * ?e" by linarith+
  then have "?y - 100 * x \<le> 100 * (x * ?e)" "100 * x - ?y \<le> 100 * (x * ?e)"
    by linarith+
  then have 2: "\<bar>?y - 100 * x\<bar> \<le> 100 * (x * ?e)" by linarith
  from 1 2 have "\<bar>q - 100 * x\<bar> \<le> 300 * (x * ?e)" by linarith
  also have "\<dots> \<le> 400 * (x * ?e)" using x0 e(1) by simp
  also have "\<dots> = 100 * x * (2 powi 2 * ?e)" by simp
  also have "(2::rat) powi 2 * ?e = 2 powi (- 51)"
    using power_int_add [of "2::rat" 2 "- 53"] by simp
  finally have "\<bar>q - 100 * x\<bar> \<le> 100 * x * 2 powi (- 51)" .
  with r show ?thesis by (rule that)
qed

lemma percentage_threshold:
  fixes s n T :: nat
  assumes "0 < n" "n < 2 ^ 40" "s < 2 ^ 40" "T \<in> {60, 70, 80, 90}"
  shows "js_ge (rounded (js_mul (rounded (js_div (num s) (num n))) (Fin 100))) (Fin (of_nat T))
           \<longleftrightarrow> T * n \<le> 100 * s"
proof -
  let ?N = "rat_of_nat n" and ?S = "rat_of_nat s" and ?T = "rat_of_nat T"
  let ?x = "?S / ?N"
  let ?q = "rounded (js_mul (rounded (js_div (num s) (num n))) (Fin 100))"
  from assms(1) have N: "0 < ?N" "1 \<le> ?N" by simp_all
  have div: "rounded (js_div (num s) (num n)) = to_double ?x"
    using assms(1) by (simp add: num_def)
  from assms(4) have T: "0 < T" "T \<le> 90" by auto
  consider "s = 0" | "0 < s" "T * n = 100 * s" | "0 < s" "T * n \<noteq> 100 * s" by blast
  then show ?thesis
  proof cases
    case 1
    with assms(1) T show ?thesis unfolding div by (simp add: to_double_def js_ge_def)
  next
    case 2
    then have "rat_of_nat (T * n) = of_nat (100 * s)" by simp
    then have "?T * ?N = 100 * ?S" by simp
    with N have x: "?x = ?T / 100" by (simp add: field_simps)
    from assms(4) show ?thesis
      unfolding div x using 2(2)
      by (auto simp: exact_thresholds js_ge_def)
  next
    case 3
    from assms(2) have "?N < of_nat (2 ^ 40)" by (simp only: of_nat_less_iff)
    then have N40: "?N < 2 ^ 40" by simp
    from assms(3) have "?S < of_nat (2 ^ 40)" by (simp only: of_nat_less_iff)
    then have S40: "?S < 2 ^ 40" by simp
    from 3(1) have S1: "1 \<le> ?S" by simp
    have inv: "1 / 2 ^ 40 < 1 / ?N" using N40 N by (simp add: frac_less2)
    have "1 / ?N \<le> ?x" using S1 N by (simp add: divide_right_mono)
    moreover have "(2::rat) powi (- 1000) \<le> 1 / 2 ^ 40"
    proof -
      have "(2::rat) powi (- 1000) \<le> 2 powi (- 40)"
        by (intro power_int_increasing) simp_all
      also have "\<dots> = 1 / 2 ^ 40"
        using power_int_minus_divide [of "2::rat" 40] by simp
      finally show ?thesis .
    qed
    ultimately have lo: "2 powi (- 1000) \<le> ?x" using inv by linarith
    have "?S / ?N \<le> ?S / 1" using N S1 by (intro divide_left_mono) simp_all
    with S40 have "?x < 2 ^ 40" by simp
    then have hi: "?x < 2 ^ 1000" by (rule less_trans) simp
    from percentage_error [OF lo hi] obtain q where
      q: "rounded (js_mul (to_double ?x) (Fin 100)) = Fin q"
      and qe: "\<bar>q - 100 * ?x\<bar> \<le> 100 * ?x * 2 powi (- 51)"
      by blast
    define X where "X = 100 * ?x"
    have x0: "0 < X" using S1 N by (simp add: X_def)
    from qe have qe: "\<bar>q - X\<bar> \<le> X * 2 powi (- 51)" by (simp only: X_def)
    have small: "200 * (2::rat) powi (- 51) < 1 / 2 ^ 40"
    proof -
      have "(2::rat) powi (- 51) = 1 / 2 ^ 51"
        using power_int_minus_divide [of "2::rat" 51] by simp
      then show ?thesis by simp
    qed
    have half: "(2::rat) powi (- 51) \<le> 1 / 2"
    proof -
      have "(2::rat) powi (- 51) \<le> 2 powi (- 1)" by (intro power_int_increasing) simp_all
      then show ?thesis by simp
    qed
    from T(2) have T90: "?T \<le> 90" by simp
    show ?thesis
    proof (cases "T * n \<le> 100 * s")
      case True
      with 3(2) have "T * n + 1 \<le> 100 * s" by simp
      then have "rat_of_nat (T * n + 1) \<le> of_nat (100 * s)" by (simp only: of_nat_le_iff)
      then have "?T * ?N + 1 \<le> 100 * ?S" by simp
      then have "(?T * ?N + 1) / ?N \<le> (100 * ?S) / ?N"
        using N by (intro divide_right_mono) simp_all
      moreover have "(?T * ?N + 1) / ?N = ?T + 1 / ?N" using N by (simp add: field_simps)
      ultimately have gap: "?T + 1 / ?N \<le> X" by (simp add: X_def)
      have "?T \<le> q"
      proof (cases "X \<le> 200")
        case True
        then have "X * 2 powi (- 51) \<le> 200 * 2 powi (- 51)"
          by (intro mult_right_mono) simp_all
        with qe small inv gap show ?thesis by linarith
      next
        case False
        have "X * 2 powi (- 51) \<le> X * (1 / 2)"
          using half x0 by (intro mult_left_mono) simp_all
        with qe False T90 show ?thesis by linarith
      qed
      with True show ?thesis by (simp add: div q js_ge_def)
    next
      case False
      then have "100 * s + 1 \<le> T * n" by simp
      then have "rat_of_nat (100 * s + 1) \<le> of_nat (T * n)" by (simp only: of_nat_le_iff)
      then have "100 * ?S + 1 \<le> ?T * ?N" by simp
      then have "(100 * ?S + 1) / ?N \<le> (?T * ?N) / ?N"
        using N by (intro divide_right_mono) simp_all
      moreover have "(100 * ?S + 1) / ?N = X + 1 / ?N" using N by (simp add: X_def field_simps)
      ultimately have gap: "X + 1 / ?N \<le> ?T" using N by simp
      have "0 < 1 / ?N" using N by simp
      with gap T90 have "X \<le> 200" by linarith
      then have "X * 2 powi (- 51) \<le> 200 * 2 powi (- 51)"
        by (intro mult_right_mono) simp_all
      with qe small inv gap have "q < ?T" by linarith
      with False show ?thesis by (simp add: div q js_ge_def)
    qed
  qed
qed

lemma round_half_even_nonneg: "0 \<le> y \<Longrightarrow> 0 \<le> round_half_even y"
  by (auto simp: round_half_even_def Let_def)

lemma to_double_nonneg:
  assumes "0 \<le> r"
  shows "js_le (Fin 0) (to_double r)"
proof (cases "r = 0")
  case True
  then show ?thesis by (simp add: to_double_def)
next
  case False
  let ?u = "(2::rat) powi (max (floor_log2 \<bar>r\<bar> - 52) (- 1074))"
  have "0 < ?u" by simp
  with assms have "0 \<le> r / ?u" by simp
  then have "0 \<le> round_half_even (r / ?u)" by (rule round_half_even_nonneg)
  with \<open>0 < ?u\<close> have "0 \<le> rat_of_int (round_half_even (r / ?u)) * ?u" by simp
  moreover from assms False have "signed_infinity r = PosInfinity"
    by (simp add: signed_infinity_def)
  ultimately show ?thesis using False
    by (simp add: to_double_def Let_def)
qed

lemma rounded_nonneg: "js_le (Fin 0) x \<Longrightarrow> js_le (Fin 0) (rounded x)"
  by (cases x) (simp_all add: to_double_nonneg)

lemma times_100_nonneg: "js_le (Fin 0) x \<Longrightarrow> js_le (Fin 0) (js_mul x (Fin 100))"
  by (cases x) (simp_all add: signed_infinity_def)

subsection \<open>The summary\<close>

lemma foldl_js_add_Fin: "foldl js_add (Fin a) (map Fin ts) = Fin (a + sum_list ts)"
  by (induction ts arbitrary: a) (simp_all add: add.assoc)

lemma getAverageTime_finite:
  assumes "questionTimes s = map Fin ts"
  shows "getAverageTime s =
           (if ts = [] then Fin 0
            else Fin (of_int \<lfloor>sum_list ts / of_nat (length ts) + 1 / 2\<rfloor>))"
  using foldl_js_add_Fin [of 0 ts]
  by (simp add: getAverageTime_def assms num_def Let_def)

text \<open>
  The times recorded are integers (\<open>timePerQuestion\<close> comes from \<^verbatim>\<open>parseInt\<close> and
  \<open>timeLeft\<close> goes down by one), so their sum is a double as it is, and the average shown
  is the same with the quotient of \<^verbatim>\<open>getAverageTime\<close> rounded to a double.
\<close>

lemma getAverageTime_rounding:
  fixes ts :: "int list"
  assumes "questionTimes s = map (\<lambda>t. Fin (of_int t)) ts" "ts \<noteq> []"
    and "int (length ts) < 2 ^ 52" "\<bar>sum_list ts\<bar> < 2 ^ 52"
  shows "Math_round (rounded (js_div (foldl js_add (Fin 0) (questionTimes s))
            (num (length (questionTimes s))))) = getAverageTime s"
proof -
  have "questionTimes s = map Fin (map of_int ts)" by (simp add: assms(1) comp_def)
  then have "foldl js_add (Fin 0) (questionTimes s) = Fin (sum_list (map of_int ts))"
    using foldl_js_add_Fin [of 0 "map of_int ts"] by simp
  also have "sum_list (map rat_of_int ts) = of_int (sum_list ts)"
    by (induction ts) simp_all
  finally have total: "foldl js_add (Fin 0) (questionTimes s) = Fin (of_int (sum_list ts))" .
  have len: "num (length (questionTimes s)) = Fin (of_int (int (length ts)))"
    by (simp add: num_def assms(1))
  from assms(2) have "0 < int (length ts)" by simp
  from average_rounding [OF this assms(3) assms(4)] assms(1) assms(2) show ?thesis
    unfolding getAverageTime_def Let_def total len by simp
qed

lemma getAverageTime_cong:
  "questionTimes s = questionTimes s' \<Longrightarrow> getAverageTime s = getAverageTime s'"
  by (simp add: getAverageTime_def)

lemma avgTime_endQuiz:
  "map_option avgTime (results (endQuiz w)) = Some (getAverageTime (state w))"
proof -
  have "getAverageTime (state (clearTimer (w\<lparr>state := (state w)\<lparr>isQuizActive := False\<rparr>\<rparr>)))
      = getAverageTime (state w)"
    by (rule getAverageTime_cong) simp
  then show ?thesis by (simp add: endQuiz_def showResults_def Let_def)
qed

lemma questionTimes_submitAnswer:
  assumes "\<not> isAnswered (state w)"
  shows "questionTimes (state (app_of (submitAnswer w)))
           = questionTimes (recordQuestionTime (state w))"
proof (cases "selected w")
  case None
  with assms show ?thesis
    by (simp add: submitAnswer_def Let_def recordQuestionTime_def resetStreak_def)
next
  case (Some a)
  with assms show ?thesis
    by (cases "a = correct_answer (questions (state w) ! currentQuestionIndex (state w))")
       (simp_all add: submitAnswer_def Let_def recordQuestionTime_def resetStreak_def
        incrementScore_def)
qed

lemma questionTimes_handleTimeUp:
  assumes "\<not> isAnswered (state w)"
  shows "questionTimes (state (app_of (handleTimeUp w)))
           = questionTimes (recordQuestionTime (state w))"
proof -
  have "state (app_of (handleTimeUp w)) = state (app_of (submitAnswer (clearTimer w)))"
    using assms by (simp add: handleTimeUp_def split: outcome.splits)
  moreover have "\<not> isAnswered (state (clearTimer w))" using assms by simp
  ultimately show ?thesis
    by (simp add: questionTimes_submitAnswer recordQuestionTime_def)
qed

lemma questionTimes_skipQuestion:
  "questionTimes (state (app_of (skipQuestion w))) = questionTimes (state w)"
  by (simp add: skipQuestion_def Let_def resetStreak_def)

lemma questionTimes_resolve:
  assumes "\<not> isAnswered (state w)"
  shows "questionTimes (state (resolve t w)) =
           (if t = BySkip \<or> \<not> truthy_time (questionStartTime (state w))
            then questionTimes (state w)
            else questionTimes (state w) @
                   [js_sub (timePerQuestion (settings (state w))) (timeLeft (state w))])"
  using assms
  by (cases t)
     (simp_all add: questionTimes_submitAnswer questionTimes_handleTimeUp
       questionTimes_skipQuestion recordQuestionTime_def)

lemma questionTimes_showResults [simp]:
  "questionTimes (state (showResults w)) = questionTimes (state w)"
  by (simp add: showResults_def Let_def)

lemma questionTimes_endQuiz [simp]:
  "questionTimes (state (endQuiz w)) = questionTimes (state w)"
  by (simp add: endQuiz_def)

lemma questionTimes_showQuestion [simp]:
  "questionTimes (state (showQuestion i w)) = questionTimes (state w)"
  by (simp add: showQuestion_def Let_def startTimer_def generateAnswers_def)

lemma questionTimes_nextQuestion [simp]:
  "questionTimes (state (nextQuestion w)) = questionTimes (state w)"
  by (simp add: nextQuestion_def Let_def)

lemma questionTimes_uncaught [simp]:
  "questionTimes (state (uncaught r)) = questionTimes (state (app_of r))"
  by (cases r) (simp_all add: uncaught_def showError_def)

lemma questionTimes_skip_or_next:
  "skip_or_next e \<Longrightarrow> questionTimes (state (step e w)) = questionTimes (state w)"
  by (cases e) (simp_all add: questionTimes_skipQuestion)

lemma questionTimes_skips:
  "list_all skip_or_next es \<Longrightarrow> questionTimes (state (run es w)) = questionTimes (state w)"
  by (induction es arbitrary: w) (simp_all add: questionTimes_skip_or_next)

lemma questionTimes_started:
  assumes "in_range form" "qs \<noteq> []"
  shows "questionTimes (state (startQuiz form (FetchOk qs) w)) = []"
  using assms(2)
  by (simp add: startQuiz_valid [OF assms(1)] Let_def reset_def)

text \<open>
  Claim C7 as it holds. The average time shown on completion is
  \<^verbatim>\<open>getAverageTime\<close>: the rounded mean of \<open>questionTimes\<close>, and 0 when that list is
  empty, with no division. A resolution by submit or timeout adds
  \<open>timePerQuestion - timeLeft\<close> to \<open>questionTimes\<close> (once the first question has been
  shown); a skip adds nothing. So skipped questions are not part of the mean, and a
  session in which every question was skipped shows 0.
\<close>

theorem average_of_recorded_times:
  "(questionTimes s = map Fin ts \<longrightarrow>
      getAverageTime s =
        (if ts = [] then Fin 0
         else Fin (of_int \<lfloor>sum_list ts / of_nat (length ts) + 1 / 2\<rfloor>)))
   \<and> map_option avgTime (results (endQuiz w)) = Some (getAverageTime (state w))
   \<and> (\<not> isAnswered (state w) \<longrightarrow>
        questionTimes (state (resolve t w)) =
          (if t = BySkip \<or> \<not> truthy_time (questionStartTime (state w))
           then questionTimes (state w)
           else questionTimes (state w) @
                  [js_sub (timePerQuestion (settings (state w))) (timeLeft (state w))]))
   \<and> (in_range form \<and> qs \<noteq> [] \<and> list_all skip_or_next es \<longrightarrow>
        questionTimes (state (run es (startQuiz form (FetchOk qs) v))) = []
        \<and> getAverageTime (state (run es (startQuiz form (FetchOk qs) v))) = Fin 0)"
proof (intro conjI impI)
  assume "questionTimes s = map Fin ts"
  then show "getAverageTime s =
        (if ts = [] then Fin 0
         else Fin (of_int \<lfloor>sum_list ts / of_nat (length ts) + 1 / 2\<rfloor>))"
    by (rule getAverageTime_finite)
next
  show "map_option avgTime (results (endQuiz w)) = Some (getAverageTime (state w))"
    by (rule avgTime_endQuiz)
next
  assume "\<not> isAnswered (state w)"
  then show "questionTimes (state (resolve t w)) =
          (if t = BySkip \<or> \<not> truthy_time (questionStartTime (state w))
           then questionTimes (state w)
           else questionTimes (state w) @
                  [js_sub (timePerQuestion (settings (state w))) (timeLeft (state w))])"
    by (rule questionTimes_resolve)
next
  assume a: "in_range form \<and> qs \<noteq> [] \<and> list_all skip_or_next es"
  then show e: "questionTimes (state (run es (startQuiz form (FetchOk qs) v))) = []"
    by (simp add: questionTimes_skips questionTimes_started)
  then show "getAverageTime (state (run es (startQuiz form (FetchOk qs) v))) = Fin 0"
    by (simp add: getAverageTime_def)
qed

text \<open>
  The claim as stated, that the average is the rounded mean of \<open>timeSpent\<close> over all
  recorded answers, fails: one question answered after 10 seconds and one skipped give
  the records 10 and 0, whose rounded mean is 5, and the results show 10.
\<close>

theorem average_counterexample:
  "map_option avgTime (results (run answered_then_skipped loaded)) = Some (Fin 10)
   \<and> map timeSpent (userAnswers (state (run answered_then_skipped loaded))) = [Fin 10, Fin 0]
   \<and> spec_averageTimeSeconds (userAnswers (state (run answered_then_skipped loaded))) = Fin 5"
  by code_simp

theorem average_of_recorded_times_witness:
  "questionTimes (three_of_4\<lparr>questionTimes := [Fin 8, Fin 11]\<rparr>) = map Fin [8, 11]
   \<and> getAverageTime (three_of_4\<lparr>questionTimes := [Fin 8, Fin 11]\<rparr>) = Fin 10
   \<and> \<not> isAnswered (state asking)
   \<and> questionTimes (state (resolve BySkip asking)) = questionTimes (state asking)
   \<and> in_range five_seconds
   \<and> list_all skip_or_next [ClickSkip, ClickNext, ClickSkip]
   \<and> getAverageTime (state (run [ClickSkip, ClickNext, ClickSkip]
        (startQuiz five_seconds (FetchOk [paris, paris, paris]) loaded))) = Fin 0"
proof -
  have a: "questionTimes (three_of_4\<lparr>questionTimes := [Fin 8, Fin 11]\<rparr>) = map Fin [8, 11]"
    by simp
  have b: "\<not> isAnswered (state asking)"
    by (simp add: sample_defs script_defs)
  have c: "in_range five_seconds" "list_all skip_or_next [ClickSkip, ClickNext, ClickSkip]"
    "[paris, paris, paris] \<noteq> []"
    by (simp_all add: in_range_def five_seconds_def js_gt_def)
  have d: "\<lfloor>(8 + 11) / 2 + 1 / 2 :: rat\<rfloor> = 10"
    by (simp add: floor_eq_iff)
  show ?thesis
    using average_of_recorded_times [of "three_of_4\<lparr>questionTimes := [Fin 8, Fin 11]\<rparr>"
        "[8, 11]" asking BySkip five_seconds "[paris, paris, paris]"
        "[ClickSkip, ClickNext, ClickSkip]" loaded] a b c d
    by simp
qed

lemma unrounded_percentage_nonneg:
  assumes "questions s \<noteq> []"
  shows "js_le (Fin 0) (unrounded_percentage s)"
proof -
  from assms have "js_le (Fin 0) (js_div (num (score s)) (num (length (questions s))))"
    by (simp add: num_def)
  then show ?thesis
    unfolding unrounded_percentage_def
    by (intro rounded_nonneg times_100_nonneg)
qed

lemma first_reached_table:
  assumes "js_le (Fin 0) q"
  shows "first_reached q PERFORMANCE_MESSAGES =
     Some (PERFORMANCE_MESSAGES !
       (if js_ge q (Fin 90) then 0 else if js_ge q (Fin 80) then 1
        else if js_ge q (Fin 70) then 2 else if js_ge q (Fin 60) then 3 else 4))"
  using assms by (simp add: PERFORMANCE_MESSAGES_def js_ge_def)

lemma three_quarters: "to_double (3 / 4) = Fin (3 / 4)" "to_double 75 = Fin 75"
  by code_simp+

lemma getPerformanceMessage_key:
  assumes "questions s \<noteq> []"
  shows "key (getPerformanceMessage s) =
           (let q = unrounded_percentage s
            in if js_ge q (Fin 90) then EXCELLENT else if js_ge q (Fin 80) then VERY_GOOD
               else if js_ge q (Fin 70) then GOOD else if js_ge q (Fin 60) then FAIR
               else POOR)"
  unfolding getPerformanceMessage_def
    first_reached_table [OF unrounded_percentage_nonneg [OF assms]]
  by (simp add: PERFORMANCE_MESSAGES_def Let_def)

lemma exact_percentage_threshold:
  fixes sc n T :: nat
  assumes "0 < n"
  shows "rat_of_nat T \<le> of_nat sc / of_nat n * 100 \<longleftrightarrow> T * n \<le> 100 * sc"
proof -
  from assms have "rat_of_nat T \<le> of_nat sc / of_nat n * 100
      \<longleftrightarrow> rat_of_nat T * of_nat n \<le> 100 * of_nat sc"
    by (simp add: field_simps)
  also have "\<dots> \<longleftrightarrow> rat_of_nat (T * n) \<le> of_nat (100 * sc)" by simp
  also have "\<dots> \<longleftrightarrow> T * n \<le> 100 * sc" by (simp only: of_nat_le_iff)
  finally show ?thesis .
qed

lemma unrounded_percentage_threshold:
  assumes "questions s \<noteq> []" "length (questions s) < 2 ^ 40" "score s < 2 ^ 40"
    and "T \<in> {60, 70, 80, 90}"
  shows "js_ge (unrounded_percentage s) (Fin (of_nat T))
           \<longleftrightarrow> rat_of_nat T \<le> of_nat (score s) / of_nat (length (questions s)) * 100"
proof -
  from assms(1) have n: "0 < length (questions s)" by simp
  show ?thesis
    unfolding unrounded_percentage_def percentage_threshold [OF n assms(2) assms(3) assms(4)]
      exact_percentage_threshold [OF n] ..
qed

lemma tier_of_exact_percentage:
  assumes "questions s \<noteq> []" "length (questions s) < 2 ^ 40" "score s < 2 ^ 40"
  shows "key (getPerformanceMessage s) =
           (let p = (of_nat (score s) / of_nat (length (questions s)) * 100 :: rat)
            in if 90 \<le> p then EXCELLENT else if 80 \<le> p then VERY_GOOD
               else if 70 \<le> p then GOOD else if 60 \<le> p then FAIR else POOR)"
proof -
  note t = unrounded_percentage_threshold [OF assms]
  from t [of 90] t [of 80] t [of 70] t [of 60] show ?thesis
    unfolding getPerformanceMessage_key [OF assms(1)] Let_def by simp
qed

text \<open>
  Claim C8 as it holds. With at least one question, the percentage shown is
  \<^verbatim>\<open>Math.round\<close> of the double \<^verbatim>\<open>(score / len(questions)) * 100\<close>, and the tier is the
  first entry of the table (90, 80, 70, 60, 0) whose minimum is at most that double,
  before it is rounded to an integer; the scan always finds one, the entry with minimum 0
  at the latest. With fewer than \<open>2 ^ 40\<close> questions and points that is the first entry
  whose minimum is at most the exact percentage \<open>100 * score / len(questions)\<close>. Three
  correct answers of four give the double 75, show 75 and select the tier of 70.
\<close>

theorem tier_from_unrounded_percentage:
  assumes "questions s \<noteq> []"
  shows "first_reached (unrounded_percentage s) PERFORMANCE_MESSAGES
             = Some (getPerformanceMessage s)
         \<and> key (getPerformanceMessage s) =
             (let q = unrounded_percentage s
              in if js_ge q (Fin 90) then EXCELLENT else if js_ge q (Fin 80) then VERY_GOOD
                 else if js_ge q (Fin 70) then GOOD else if js_ge q (Fin 60) then FAIR
                 else POOR)
         \<and> (length (questions s) < 2 ^ 40 \<and> score s < 2 ^ 40 \<longrightarrow>
               key (getPerformanceMessage s) =
                 (let p = (of_nat (score s) / of_nat (length (questions s)) * 100 :: rat)
                  in if 90 \<le> p then EXCELLENT else if 80 \<le> p then VERY_GOOD
                     else if 70 \<le> p then GOOD else if 60 \<le> p then FAIR else POOR))
         \<and> map_option scorePercentage (results (showResults (w\<lparr>state := s\<rparr>)))
             = Some (Math_round (unrounded_percentage s))
         \<and> map_option performanceData (results (showResults (w\<lparr>state := s\<rparr>)))
             = Some (getPerformanceMessage s)
         \<and> (4 * score s = 3 * length (questions s) \<longrightarrow>
               unrounded_percentage s = Fin 75
               \<and> Math_round (unrounded_percentage s) = Fin 75
               \<and> key (getPerformanceMessage s) = GOOD)"
proof -
  note f = first_reached_table [OF unrounded_percentage_nonneg [OF assms]]
  have g: "first_reached (unrounded_percentage s) PERFORMANCE_MESSAGES
             = Some (getPerformanceMessage s)"
    unfolding getPerformanceMessage_def f by simp
  note k = getPerformanceMessage_key [OF assms]
  have x: "key (getPerformanceMessage s) =
                 (let p = (of_nat (score s) / of_nat (length (questions s)) * 100 :: rat)
                  in if 90 \<le> p then EXCELLENT else if 80 \<le> p then VERY_GOOD
                     else if 70 \<le> p then GOOD else if 60 \<le> p then FAIR else POOR)"
    if "length (questions s) < 2 ^ 40 \<and> score s < 2 ^ 40"
    using that by (intro tier_of_exact_percentage assms) simp_all
  have r: "map_option scorePercentage (results (showResults (w\<lparr>state := s\<rparr>)))
             = Some (Math_round (unrounded_percentage s))"
    "map_option performanceData (results (showResults (w\<lparr>state := s\<rparr>)))
             = Some (getPerformanceMessage s)"
    by (simp_all add: showResults_def Let_def unrounded_percentage_def)
  have e: "unrounded_percentage s = Fin 75 \<and> Math_round (unrounded_percentage s) = Fin 75
      \<and> key (getPerformanceMessage s) = GOOD"
    if "4 * score s = 3 * length (questions s)"
  proof -
    from that have "4 * (of_nat (score s) :: rat) = 3 * of_nat (length (questions s))"
      by (metis of_nat_mult of_nat_numeral)
    moreover from assms have "(of_nat (length (questions s)) :: rat) \<noteq> 0" by simp
    ultimately have h: "(of_nat (score s) :: rat) / of_nat (length (questions s)) = 3 / 4"
      by (simp add: field_simps)
    from assms have "js_div (num (score s)) (num (length (questions s)))
        = Fin (of_nat (score s) / of_nat (length (questions s)))"
      by (simp add: num_def)
    then have "unrounded_percentage s = rounded (js_mul (rounded (Fin (3 / 4))) (Fin 100))"
      unfolding unrounded_percentage_def h by simp
    then have q: "unrounded_percentage s = Fin 75"
      by (simp add: three_quarters)
    show ?thesis unfolding k q by (simp add: js_ge_def floor_eq_iff)
  qed
  from g k x r e show ?thesis by blast
qed

text \<open>
  The claim as stated, that the tier is the first entry whose minimum is at most the
  rounded percentage, fails: 16 of 23 is 69.57 percent, shown as 70, for which the
  claim's scan gives the tier of 70; the script gives the tier of 60.
\<close>

theorem tier_counterexample:
  "key (getPerformanceMessage sixteen_of_23) = FAIR
   \<and> spec_percentage (score sixteen_of_23) (length (questions sixteen_of_23)) = Fin 70
   \<and> map_option key (spec_tier (Fin 70)) = Some GOOD
   \<and> map_option (\<lambda>r. (scorePercentage r, key (performanceData r)))
        (results (showResults (loaded\<lparr>state := sixteen_of_23\<rparr>))) = Some (Fin 70, FAIR)"
  by code_simp

theorem tier_from_unrounded_percentage_witness:
  "questions three_of_4 \<noteq> []
   \<and> length (questions three_of_4) < 2 ^ 40 \<and> score three_of_4 < 2 ^ 40
   \<and> 4 * score three_of_4 = 3 * length (questions three_of_4)
   \<and> Math_round (unrounded_percentage three_of_4) = Fin 75
   \<and> key (getPerformanceMessage three_of_4) = GOOD
   \<and> key (getPerformanceMessage three_of_4) =
        (let p = (of_nat (score three_of_4) / of_nat (length (questions three_of_4)) * 100 :: rat)
         in if 90 \<le> p then EXCELLENT else if 80 \<le> p then VERY_GOOD
            else if 70 \<le> p then GOOD else if 60 \<le> p then FAIR else POOR)"
proof -
  have a: "questions three_of_4 \<noteq> []"
    "4 * score three_of_4 = 3 * length (questions three_of_4)"
    "length (questions three_of_4) < 2 ^ 40" "score three_of_4 < 2 ^ 40"
    by (simp_all add: three_of_4_def new_QuizState_def)
  show ?thesis
    using tier_from_unrounded_percentage [OF a(1), of loaded] a
    by blast
qed

text \<open>
  The percentage is rounded from the double: 23 of 40 is exactly 57.5 percent, and the
  script shows 57, since the double \<^verbatim>\<open>(23/40)*100\<close> is below 57.5.
\<close>

lemma percentage_of_23_of_40:
  "map_option scorePercentage (results (showResults (loaded\<lparr>state := twenty_three_of_40\<rparr>)))
     = Some (Fin 57)
   \<and> spec_percentage 23 40 = Fin 58"
  by code_simp

subsection \<open>The shuffle\<close>

lemma random_index_le:
  assumes "0 \<le> rnd k" "rnd k < 1"
  shows "random_index rnd k i \<le> i"
proof -
  have "rnd k * of_nat (i + 1) < of_nat (i + 1)"
    using assms(2) by (simp add: mult_less_cancel_right2)
  then have "\<lfloor>rnd k * of_nat (i + 1)\<rfloor> < int (i + 1)"
    by (simp add: floor_less_iff)
  then show ?thesis by (simp add: random_index_def)
qed

lemma mset_swap_list: "i < length xs \<Longrightarrow> j < length xs \<Longrightarrow> mset (swap i j xs) = mset xs"
  by (simp add: swap_def mset_swap)

lemma length_swap [simp]: "length (swap i j xs) = length xs"
  by (simp add: swap_def)

lemma shuffle_values_perm:
  assumes "\<forall>k. 0 \<le> rnd k \<and> rnd k < 1" "n < length ys \<or> n = 0"
  shows "mset (shuffle_values rnd k n ys) = mset ys \<and> length (shuffle_values rnd k n ys) = length ys"
  using assms(2)
proof (induction n arbitrary: k ys)
  case 0
  then show ?case by simp
next
  case (Suc n)
  let ?j = "random_index rnd k (Suc n)"
  from assms(1) have "?j \<le> Suc n" by (simp add: random_index_le)
  with Suc.prems have "mset (swap (Suc n) ?j ys) = mset ys"
    by (intro mset_swap_list) auto
  moreover from Suc.prems have "n < length (swap (Suc n) ?j ys) \<or> n = 0" by auto
  ultimately show ?case using Suc.IH [of "swap (Suc n) ?j ys" "Suc k"] by simp
qed

lemma shuffled_copy_perm:
  assumes "\<forall>k. 0 \<le> rnd k \<and> rnd k < 1"
  shows "mset (shuffled_copy rnd k xs) = mset xs \<and> length (shuffled_copy rnd k xs) = length xs"
  unfolding shuffled_copy_def
  by (rule shuffle_values_perm [OF assms]) (cases xs; simp)

lemma shuffle_loop_cells:
  assumes "cells h shuffled = Some ys"
  shows "cells (shuffle_loop rnd k shuffled n h)
           = (cells h)(shuffled \<mapsto> shuffle_values rnd k n ys)
         \<and> free (shuffle_loop rnd k shuffled n h) = free h"
  using assms
proof (induction n arbitrary: k h ys)
  case 0
  then show ?case by auto
next
  case (Suc n)
  let ?ys = "swap (Suc n) (random_index rnd k (Suc n)) ys"
  let ?h = "h\<lparr>cells := (cells h)(shuffled \<mapsto> ?ys)\<rparr>"
  have "cells ?h shuffled = Some ?ys" by simp
  from Suc.IH [OF this, of "Suc k"] Suc.prems show ?case by (auto simp: Let_def fun_eq_iff)
qed

lemma shuffleArray_store:
  assumes "cells h array = Some xs" "array < free h"
  shows "\<exists>h'. shuffleArray rnd k array h = Some (free h, h')
           \<and> cells h' = (cells h)(free h \<mapsto> shuffled_copy rnd k xs)
           \<and> cells h' array = Some xs"
proof -
  let ?h1 = "h\<lparr>cells := (cells h)(free h \<mapsto> xs), free := Suc (free h)\<rparr>"
  have "cells ?h1 (free h) = Some xs" by simp
  from shuffle_loop_cells [OF this, of rnd k "length xs - 1"] assms
  show ?thesis by (auto simp: shuffleArray_def Let_def shuffled_copy_def)
qed

text \<open>
  What \<^verbatim>\<open>shuffleArray\<close> does. With \<^verbatim>\<open>Math.random\<close> returning values from 0 up to, but
  not including, 1, \<^verbatim>\<open>shuffleArray\<close> returns a new array, leaves the array it was given
  and every other array as they were, and the new array is a permutation of the one
  given: the same elements with the same multiplicities, and the same length. So the
  answer elements that \<^verbatim>\<open>generateAnswers\<close> builds for a question are built from its
  incorrect answers and its correct answer, in some order, one element for each; their
  texts are those answers when the browser renders each answer as itself.
\<close>

theorem shuffle_permutes_a_copy:
  assumes "\<forall>k. 0 \<le> rnd k \<and> rnd k < 1"
  shows "(cells h array = Some xs \<and> array < free h \<longrightarrow>
            (\<exists>h'. shuffleArray rnd k array h = Some (free h, h')
               \<and> cells h' array = Some xs
               \<and> (\<forall>a. a \<noteq> free h \<longrightarrow> cells h' a = cells h a)
               \<and> cells h' (free h) = Some (shuffled_copy rnd k xs)))
         \<and> mset (shuffled_copy rnd k xs) = mset xs
         \<and> length (shuffled_copy rnd k xs) = length xs
         \<and> (random w = rnd \<longrightarrow>
              mset (answerElements (generateAnswers q w))
                = image_mset (rendered w) (mset (incorrect_answers q) + {#correct_answer q#})
              \<and> length (answerElements (generateAnswers q w)) = length (incorrect_answers q) + 1
              \<and> ((\<forall>a \<in> set (incorrect_answers q @ [correct_answer q]). rendered w a = a) \<longrightarrow>
                    mset (answerElements (generateAnswers q w))
                      = mset (incorrect_answers q) + {#correct_answer q#}))"
proof (intro conjI impI)
  assume a: "cells h array = Some xs \<and> array < free h"
  with shuffleArray_store [of h array xs rnd k]
  show "\<exists>h'. shuffleArray rnd k array h = Some (free h, h')
               \<and> cells h' array = Some xs
               \<and> (\<forall>a. a \<noteq> free h \<longrightarrow> cells h' a = cells h a)
               \<and> cells h' (free h) = Some (shuffled_copy rnd k xs)"
    by auto
next
  assume r: "random w = rnd"
  let ?all = "incorrect_answers q @ [correct_answer q]"
  note p = shuffled_copy_perm [OF assms, of "drawn w" ?all]
  have "mset (map (rendered w) (shuffled_copy rnd (drawn w) ?all))
          = image_mset (rendered w) (mset ?all)"
    using p by (simp del: mset_append)
  then show m: "mset (answerElements (generateAnswers q w))
                = image_mset (rendered w) (mset (incorrect_answers q) + {#correct_answer q#})"
    using r by (simp add: generateAnswers_def Let_def)
  show "length (answerElements (generateAnswers q w)) = length (incorrect_answers q) + 1"
    using p r by (simp add: generateAnswers_def Let_def)
  assume "\<forall>a \<in> set ?all. rendered w a = a"
  then have "map (rendered w) ?all = ?all" by (simp add: map_idI)
  then have "image_mset (rendered w) (mset ?all) = mset ?all"
    by (metis mset_map)
  with m show "mset (answerElements (generateAnswers q w))
                      = mset (incorrect_answers q) + {#correct_answer q#}"
    by simp
qed (simp_all add: shuffled_copy_perm [OF assms])

theorem shuffle_permutes_a_copy_witness:
  "(\<forall>k::nat. (0::rat) \<le> 1 / 2 \<and> (1 / 2 :: rat) < 1)
   \<and> cells \<lparr>cells = [0 \<mapsto> [1, 2, 3, 4 :: nat]], free = 1\<rparr> 0 = Some [1, 2, 3, 4]
   \<and> (\<exists>h'. shuffleArray (\<lambda>k. 1 / 2) 0 0 \<lparr>cells = [0 \<mapsto> [1, 2, 3, 4 :: nat]], free = 1\<rparr>
               = Some (1, h')
          \<and> cells h' 0 = Some [1, 2, 3, 4]
          \<and> cells h' 1 = Some (shuffled_copy (\<lambda>k. 1 / 2) 0 [1, 2, 3, 4]))
   \<and> mset (shuffled_copy (\<lambda>k. 1 / 2) 0 [1, 2, 3, 4 :: nat]) = mset [1, 2, 3, 4]
   \<and> random loaded = (\<lambda>k. 1 / 2)
   \<and> (\<forall>a \<in> set (incorrect_answers paris @ [correct_answer paris]). rendered loaded a = a)
   \<and> mset (answerElements (generateAnswers paris loaded))
        = mset (incorrect_answers paris) + {#correct_answer paris#}"
proof -
  have a: "\<forall>k::nat. (0::rat) \<le> (\<lambda>k. 1 / 2) k \<and> (\<lambda>k. 1 / 2 :: rat) k < 1"
    by simp
  have b: "random loaded = (\<lambda>k. 1 / 2)"
    by (simp add: loaded_def new_QuizApp_def)
  have c: "\<forall>a \<in> set (incorrect_answers paris @ [correct_answer paris]). rendered loaded a = a"
    by (simp add: loaded_def new_QuizApp_def paris_def shown_def)
  show ?thesis
    using shuffle_permutes_a_copy [OF a,
        of "\<lparr>cells = [0 \<mapsto> [1, 2, 3, 4 :: nat]], free = 1\<rparr>" 0 "[1, 2, 3, 4]" 0 loaded paris] b c
    by auto
qed

text \<open>
  Claim C10, which the script does not keep. \<^verbatim>\<open>shuffleArray\<close> is a permutation of a
  copy, but the options presented are not always the answers of the question:
  \<^verbatim>\<open>generateAnswers\<close> writes each answer into its element as markup, and
  \<^verbatim>\<open>submitAnswer\<close> reads the text of the element back. For the question whose correct
  answer is \<^verbatim>\<open><b>\<close> the four options read \<^verbatim>\<open>bold\<close>, the empty text, \<^verbatim>\<open>strong\<close> and
  \<^verbatim>\<open>heavy\<close>: the correct answer is not among them, and the option built from it is
  recorded as the empty answer and as incorrect.
\<close>

theorem markup_answer_loses_its_text:
  "incorrect_answers bold @ [correct_answer bold] = [''bold'', ''strong'', ''heavy'', ''<b>'']
   \<and> answerElements (run [ClickStart five_seconds (FetchOk [bold])] loaded)
        = [''bold'', [], ''strong'', ''heavy'']
   \<and> correct_answer bold
        \<notin> set (answerElements (run [ClickStart five_seconds (FetchOk [bold])] loaded))
   \<and> map (\<lambda>r. (userAnswer r, correctAnswer r, isCorrect r))
        (userAnswers (state (run [ClickStart five_seconds (FetchOk [bold]), ClickAnswer 1,
           ClickSubmit] loaded)))
        = [(Some [], ''<b>'', False)]
   \<and> score (state (run [ClickStart five_seconds (FetchOk [bold]), ClickAnswer 1,
           ClickSubmit] loaded)) = 0"
  by code_simp

end
